theory Spec2Isabelle
  imports Main "HOL-Library.Monad_Syntax" "HOL-Library.Sublist"
begin

section \<open>JavaScript Map objects\<close>

text \<open>
  The realtime module keeps its registries in ECMAScript \<^verbatim>\<open>Map\<close> objects and iterates them
  with \<^verbatim>\<open>forEach\<close> while callbacks may change them. The language defines a Map as a list of
  entries: \<^verbatim>\<open>set\<close> of a new key appends an entry, \<^verbatim>\<open>set\<close> of a present key replaces the
  value in place, \<^verbatim>\<open>delete\<close> empties the entry (the slot stays), \<^verbatim>\<open>clear\<close> empties every
  entry, and \<^verbatim>\<open>forEach\<close> walks the list by position, reading its length again at each step.
  An emptied slot is \<open>None\<close>.
\<close>

type_synonym ('k, 'v) jsmap = "('k \<times> 'v) option list"

fun js_get :: "('k, 'v) jsmap \<Rightarrow> 'k \<Rightarrow> 'v option" where
  "js_get [] k = None"
| "js_get (None # m) k = js_get m k"
| "js_get (Some (k', v) # m) k = (if k' = k then Some v else js_get m k)"

fun js_set :: "('k, 'v) jsmap \<Rightarrow> 'k \<Rightarrow> 'v \<Rightarrow> ('k, 'v) jsmap" where
  "js_set [] k v = [Some (k, v)]"
| "js_set (None # m) k v = None # js_set m k v"
| "js_set (Some (k', v') # m) k v =
     (if k' = k then Some (k, v) # m else Some (k', v') # js_set m k v)"

fun js_delete :: "('k, 'v) jsmap \<Rightarrow> 'k \<Rightarrow> ('k, 'v) jsmap" where
  "js_delete [] k = []"
| "js_delete (None # m) k = None # js_delete m k"
| "js_delete (Some (k', v) # m) k =
     (if k' = k then None # m else Some (k', v) # js_delete m k)"

definition js_size :: "('k, 'v) jsmap \<Rightarrow> nat" where
  "js_size m = length (filter (\<lambda>e. e \<noteq> None) m)"

definition js_clear :: "('k, 'v) jsmap \<Rightarrow> ('k, 'v) jsmap" where
  "js_clear m = map (\<lambda>_. None) m"

text \<open>The live entries of a Map, in insertion order.\<close>

definition js_entries :: "('k, 'v) jsmap \<Rightarrow> ('k \<times> 'v) list" where
  "js_entries m = List.map_filter id m"

definition js_keys :: "('k, 'v) jsmap \<Rightarrow> 'k list" where
  "js_keys m = map fst (js_entries m)"


section \<open>The realtime module (\<^verbatim>\<open>src/modules/realtime.ts\<close>)\<close>

subsection \<open>Data\<close>

type_synonym collection = string
type_synonym callbackId = string

text \<open>
  An application function (a subscription callback, a connection listener, a workflow
  callback) is known to the module by its identity only; identities are numbers.
\<close>

type_synonym callback = nat

datatype SubscriptionEvent = Create | Update | Delete

datatype SubscriptionPayload =
  SubscriptionPayload (action: SubscriptionEvent) (of_collection: string)
    (data: string) (timestamp: string)

datatype WorkflowExecutionUpdate =
  WorkflowExecutionUpdate (executionId: string) (execution_status: "string option") (detail: string)

text \<open>What a transport event carries to its listeners.\<close>

datatype payload =
  NoPayload
  | Text string
  | Collection SubscriptionPayload
  | Workflow WorkflowExecutionUpdate

text \<open>
  The closures that \<^verbatim>\<open>connect\<close> and \<^verbatim>\<open>setupCollectionListeners\<close> hand to
  \<^verbatim>\<open>socket.on\<close>, one constructor for each.
\<close>

datatype listener =
  OnConnect
  | OnDisconnect
  | OnConnectError
  | OnReconnect
  | OnReconnectAttempt
  | OnConnected
  | OnWorkflowUpdate
  | OnWorkflowComplete
  | OnCollection collection

text \<open>
  The \<^verbatim>\<open>Socket\<close> interface: the \<^verbatim>\<open>connected\<close> flag and the listener table that
  \<^verbatim>\<open>on\<close> extends and \<^verbatim>\<open>off\<close> prunes. Listeners of one event name are kept in the
  order of their registration, and the same listener may be registered more than once.
\<close>

record Socket =
  connected :: bool
  listeners :: "(string \<times> listener) list"

text \<open>Calls made on the transport, in order: what the server and the socket library see.\<close>

datatype wire =
  Open "string option"
  | SocketConnect
  | SocketDisconnect
  | Emit string string

record Subscription =
  collection :: collection
  callbacks :: "(callbackId, callback) jsmap"

text \<open>
  The fields of \<^verbatim>\<open>RealtimeModule\<close>. A \<^verbatim>\<open>Subscription\<close> is an object that the
  registry, the unsubscribe closures and a running dispatch all refer to, so the objects
  live in \<open>store\<close> (the address of an object is its index) and \<open>subscriptions\<close> maps a
  collection to an address. \<open>wire\<close>, \<open>invoked\<close> and \<open>notified\<close> record the calls the module
  makes on the transport, on subscription and workflow callbacks and on connection
  listeners; \<open>caught\<close> counts the errors that a \<^verbatim>\<open>catch\<close> block logged.
\<close>

record RealtimeModule =
  socket :: "Socket option"
  socketClient :: bool
  subscriptions :: "(collection, nat) jsmap"
  store :: "Subscription list"
  workflowCallbacks :: "(string, callback list) jsmap"
  connectionCallbacks :: "callback list"
  reconnecting :: bool
  connectionPromise :: bool
  wire :: "wire list"
  invoked :: "(callback \<times> payload) list"
  notified :: "(callback \<times> bool) list"
  caught :: nat

definition new_RealtimeModule :: RealtimeModule where
  "new_RealtimeModule =
     \<lparr>socket = None, socketClient = False, subscriptions = [], store = [],
      workflowCallbacks = [], connectionCallbacks = [], reconnecting = False,
      connectionPromise = False, wire = [], invoked = [], notified = [], caught = 0\<rparr>"

text \<open>
  What an application callback does when it is invoked: it may call back into the module
  (subscribe, invoke an unsubscribe handle, disconnect), so it maps the module's state to a
  new state, and it may raise (the flag).
\<close>

type_synonym behaviour = "callback \<Rightarrow> payload \<Rightarrow> RealtimeModule \<Rightarrow> RealtimeModule \<times> bool"

subsection \<open>Operations\<close>

definition setSocketClient :: "RealtimeModule \<Rightarrow> RealtimeModule" where
  "setSocketClient s = s\<lparr>socketClient := True\<rparr>"

definition isConnected :: "RealtimeModule \<Rightarrow> bool" where
  "isConnected s = (case socket s of None \<Rightarrow> False | Some sk \<Rightarrow> connected sk)"

definition socket_on :: "string \<Rightarrow> listener \<Rightarrow> Socket \<Rightarrow> Socket" where
  "socket_on ev l sk = sk\<lparr>listeners := listeners sk @ [(ev, l)]\<rparr>"

text \<open>\<^verbatim>\<open>socket.off(eventName)\<close> without a listener removes every listener of that event.\<close>

definition socket_off :: "string \<Rightarrow> Socket \<Rightarrow> Socket" where
  "socket_off ev sk = sk\<lparr>listeners := filter (\<lambda>(n, l). n \<noteq> ev) (listeners sk)\<rparr>"

definition events :: "SubscriptionEvent list" where
  "events = [Create, Update, Delete]"

fun event_string :: "SubscriptionEvent \<Rightarrow> string" where
  "event_string Create = ''create''"
| "event_string Update = ''update''"
| "event_string Delete = ''delete''"

definition eventName :: "collection \<Rightarrow> SubscriptionEvent \<Rightarrow> string" where
  "eventName c e = c @ '':'' @ event_string e"

definition notifyConnectionChange :: "bool \<Rightarrow> RealtimeModule \<Rightarrow> RealtimeModule" where
  "notifyConnectionChange b s =
     s\<lparr>notified := notified s @ map (\<lambda>cb. (cb, b)) (connectionCallbacks s)\<rparr>"

definition onConnectionChange :: "callback \<Rightarrow> RealtimeModule \<Rightarrow> RealtimeModule" where
  "onConnectionChange cb s =
     (if cb \<in> set (connectionCallbacks s) then s
      else s\<lparr>connectionCallbacks := connectionCallbacks s @ [cb]\<rparr>)"

definition subscribeOnServer :: "collection \<Rightarrow> RealtimeModule \<Rightarrow> RealtimeModule" where
  "subscribeOnServer c s =
     (if isConnected s then s\<lparr>wire := wire s @ [Emit ''subscribe'' c]\<rparr> else s)"

definition unsubscribeOnServer :: "collection \<Rightarrow> RealtimeModule \<Rightarrow> RealtimeModule" where
  "unsubscribeOnServer c s =
     (if isConnected s then s\<lparr>wire := wire s @ [Emit ''unsubscribe'' c]\<rparr> else s)"

definition setupCollectionListeners :: "collection \<Rightarrow> RealtimeModule \<Rightarrow> RealtimeModule" where
  "setupCollectionListeners c s =
     (case socket s of
        None \<Rightarrow> s
      | Some sk \<Rightarrow>
          s\<lparr>socket := Some (fold (\<lambda>e. socket_on (eventName c e) (OnCollection c)) events sk)\<rparr>)"

definition removeCollectionListeners :: "collection \<Rightarrow> RealtimeModule \<Rightarrow> RealtimeModule" where
  "removeCollectionListeners c s =
     (case socket s of
        None \<Rightarrow> s
      | Some sk \<Rightarrow> s\<lparr>socket := Some (fold (\<lambda>e. socket_off (eventName c e)) events sk)\<rparr>)"

text \<open>
  \<^verbatim>\<open>subscribe(collection, callback)\<close>. The callback id is built from the clock and a
  random number; it is an argument here. The result is the new state; the unsubscribe
  closure that the source returns is \<open>unsubscribe collection callbackId\<close> below.
\<close>

definition subscribe ::
  "collection \<Rightarrow> callbackId \<Rightarrow> callback \<Rightarrow> RealtimeModule \<Rightarrow> RealtimeModule" where
  "subscribe c cid cb s =
     (case js_get (subscriptions s) c of
        Some a \<Rightarrow>
          s\<lparr>store := (store s)[a := (store s ! a)\<lparr>callbacks := js_set (callbacks (store s ! a)) cid cb\<rparr>]\<rparr>
      | None \<Rightarrow>
          (let a = length (store s);
               s1 = s\<lparr>store := store s @ [\<lparr>collection = c, callbacks = []\<rparr>],
                      subscriptions := js_set (subscriptions s) c a\<rparr>;
               s2 = setupCollectionListeners c (subscribeOnServer c s1)
           in s2\<lparr>store := (store s2)[a := (store s2 ! a)\<lparr>callbacks := js_set (callbacks (store s2 ! a)) cid cb\<rparr>]\<rparr>))"

definition unsubscribe :: "collection \<Rightarrow> callbackId \<Rightarrow> RealtimeModule \<Rightarrow> RealtimeModule" where
  "unsubscribe c cid s =
     (case js_get (subscriptions s) c of
        None \<Rightarrow> s
      | Some a \<Rightarrow>
          (let s1 = s\<lparr>store := (store s)[a := (store s ! a)\<lparr>callbacks := js_delete (callbacks (store s ! a)) cid\<rparr>]\<rparr>
           in if js_size (callbacks (store s1 ! a)) = 0
              then (let s2 = removeCollectionListeners c (unsubscribeOnServer c s1)
                    in s2\<lparr>subscriptions := js_delete (subscriptions s2) c\<rparr>)
              else s1))"

text \<open>
  \<^verbatim>\<open>handleCollectionEvent\<close>: \<^verbatim>\<open>subscription.callbacks.forEach\<close> over the Map of the
  record found when the event arrives. Each callback runs inside \<^verbatim>\<open>try\<close>/\<^verbatim>\<open>catch\<close>; the
  \<^verbatim>\<open>catch\<close> logs and the loop goes on. The walk is over the Map as it is at each step, and
  it ends when the position reaches the end of the entry list; a callback that keeps
  adding callbacks keeps it running, which is the result \<open>None\<close>.
\<close>

definition call_callback ::
  "behaviour \<Rightarrow> callback \<Rightarrow> payload \<Rightarrow> RealtimeModule \<Rightarrow> RealtimeModule" where
  "call_callback env cb p s =
     (case env cb p (s\<lparr>invoked := invoked s @ [(cb, p)]\<rparr>) of
        (s', raised) \<Rightarrow> if raised then s'\<lparr>caught := Suc (caught s')\<rparr> else s')"

partial_function (option) forEach_callbacks ::
  "behaviour \<Rightarrow> nat \<Rightarrow> payload \<Rightarrow> nat \<Rightarrow> RealtimeModule \<Rightarrow> RealtimeModule option" where
  "forEach_callbacks env a p i s =
     (if i < length (callbacks (store s ! a))
      then (case callbacks (store s ! a) ! i of
              None \<Rightarrow> forEach_callbacks env a p (Suc i) s
            | Some (cid, cb) \<Rightarrow> forEach_callbacks env a p (Suc i) (call_callback env cb p s))
      else Some s)"

declare forEach_callbacks.simps [code]

definition handleCollectionEvent ::
  "behaviour \<Rightarrow> collection \<Rightarrow> payload \<Rightarrow> RealtimeModule \<Rightarrow> RealtimeModule option" where
  "handleCollectionEvent env c p s =
     (case js_get (subscriptions s) c of
        None \<Rightarrow> Some s
      | Some a \<Rightarrow> forEach_callbacks env a p 0 s)"

definition resubscribeAll :: "RealtimeModule \<Rightarrow> RealtimeModule" where
  "resubscribeAll s =
     fold (\<lambda>c s'. setupCollectionListeners c (subscribeOnServer c s')) (js_keys (subscriptions s)) s"


text \<open>
  \<^verbatim>\<open>subscribeToExecution\<close> and the closure it returns. The callbacks of one execution are a
  \<^verbatim>\<open>Set\<close>, kept here as a list without repetition.
\<close>

definition subscribeToExecution :: "string \<Rightarrow> callback \<Rightarrow> RealtimeModule \<Rightarrow> RealtimeModule" where
  "subscribeToExecution ident cb s =
     (let s1 = (if isConnected s
                then s\<lparr>wire := wire s @ [Emit ''workflow:execution:join'' ident]\<rparr> else s);
          cbs = (case js_get (workflowCallbacks s1) ident of None \<Rightarrow> [] | Some l \<Rightarrow> l)
      in s1\<lparr>workflowCallbacks :=
              js_set (workflowCallbacks s1) ident (if cb \<in> set cbs then cbs else cbs @ [cb])\<rparr>)"

definition unsubscribeFromExecution ::
  "string \<Rightarrow> callback \<Rightarrow> RealtimeModule \<Rightarrow> RealtimeModule" where
  "unsubscribeFromExecution ident cb s =
     (case js_get (workflowCallbacks s) ident of
        None \<Rightarrow> s
      | Some cbs \<Rightarrow>
          (let cbs' = filter (\<lambda>x. x \<noteq> cb) cbs
           in if cbs' = []
              then s\<lparr>workflowCallbacks := js_delete (workflowCallbacks s) ident\<rparr>
              else s\<lparr>workflowCallbacks := js_set (workflowCallbacks s) ident cbs'\<rparr>))"

text \<open>
  \<^verbatim>\<open>handleWorkflowUpdate\<close> calls every callback of the execution inside
  \<^verbatim>\<open>try\<close>/\<^verbatim>\<open>catch\<close>. The bodies of workflow callbacks and of connection listeners are not
  run here: the call is recorded.
\<close>

definition handleWorkflowUpdate :: "WorkflowExecutionUpdate \<Rightarrow> RealtimeModule \<Rightarrow> RealtimeModule" where
  "handleWorkflowUpdate d s =
     (case js_get (workflowCallbacks s) (executionId d) of
        None \<Rightarrow> s
      | Some cbs \<Rightarrow> s\<lparr>invoked := invoked s @ map (\<lambda>cb. (cb, Workflow d)) cbs\<rparr>)"

datatype rt_error = SocketClientNotSet

text \<open>
  \<^verbatim>\<open>connect()\<close> up to \<^verbatim>\<open>socket.connect()\<close>: the promise is pending from here until the
  transport reports \<^verbatim>\<open>connect\<close> or a first \<^verbatim>\<open>connect_error\<close>. The argument is the access
  token read from the storage.
\<close>

definition connect :: "string option \<Rightarrow> RealtimeModule \<Rightarrow> rt_error + RealtimeModule" where
  "connect tok s =
     (if connectionPromise s then Inr s
      else if isConnected s then Inr s
      else if \<not> socketClient s then Inl SocketClientNotSet
      else Inr (s\<lparr>connectionPromise := True,
                  socket := Some \<lparr>connected = False,
                                  listeners =
                                    [(''connect'', OnConnect),
                                     (''disconnect'', OnDisconnect),
                                     (''connect_error'', OnConnectError),
                                     (''reconnect'', OnReconnect),
                                     (''reconnect_attempt'', OnReconnectAttempt),
                                     (''connected'', OnConnected),
                                     (''workflow:execution:update'', OnWorkflowUpdate),
                                     (''workflow:execution:complete'', OnWorkflowComplete)]\<rparr>,
                  wire := wire s @ [Open tok, SocketConnect]\<rparr>))"

definition disconnect :: "RealtimeModule \<Rightarrow> RealtimeModule" where
  "disconnect s =
     (let s1 = (case socket s of
                  None \<Rightarrow> s
                | Some sk \<Rightarrow> s\<lparr>wire := wire s @ [SocketDisconnect], socket := None\<rparr>)
      in s1\<lparr>subscriptions := js_clear (subscriptions s1),
            workflowCallbacks := js_clear (workflowCallbacks s1)\<rparr>)"

text \<open>The bodies of the listeners, as \<^verbatim>\<open>connect\<close> and \<^verbatim>\<open>setupCollectionListeners\<close> write them.\<close>

fun run_listener ::
  "behaviour \<Rightarrow> listener \<Rightarrow> payload \<Rightarrow> RealtimeModule \<Rightarrow> RealtimeModule option" where
  "run_listener env OnConnect p s =
     Some ((notifyConnectionChange True (s\<lparr>reconnecting := False\<rparr>))\<lparr>connectionPromise := False\<rparr>)"
| "run_listener env OnDisconnect p s = Some (notifyConnectionChange False s)"
| "run_listener env OnConnectError p s =
     Some (if \<not> reconnecting s then s\<lparr>connectionPromise := False\<rparr> else s)"
| "run_listener env OnReconnect p s =
     Some (notifyConnectionChange True (resubscribeAll (s\<lparr>reconnecting := False\<rparr>)))"
| "run_listener env OnReconnectAttempt p s = Some (s\<lparr>reconnecting := True\<rparr>)"
| "run_listener env OnConnected p s = Some s"
| "run_listener env OnWorkflowUpdate p s =
     Some (case p of Workflow d \<Rightarrow> handleWorkflowUpdate d s | _ \<Rightarrow> s)"
| "run_listener env OnWorkflowComplete p s =
     Some (case p of
             Workflow d \<Rightarrow>
               handleWorkflowUpdate
                 (WorkflowExecutionUpdate (executionId d) (Some ''complete'') (detail d)) s
           | _ \<Rightarrow> s)"
| "run_listener env (OnCollection c) p s = handleCollectionEvent env c p s"

subsection \<open>The transport\<close>

text \<open>
  The socket is an event emitter: an event that arrives on it is handed, in order of
  registration, to every listener registered under its name when it arrives. The socket
  that \<^verbatim>\<open>connect\<close> created stays the module's socket, with its listener table, through the
  transport's own disconnects and reconnects; only \<^verbatim>\<open>disconnect()\<close> drops it (the module
  registers its \<^verbatim>\<open>reconnect\<close> listener once, on that socket, to be called at every
  reconnect, and looks at the same \<^verbatim>\<open>this.socket\<close> in the replay).
\<close>

fun run_listeners ::
  "behaviour \<Rightarrow> listener list \<Rightarrow> payload \<Rightarrow> RealtimeModule \<Rightarrow> RealtimeModule option" where
  "run_listeners env [] p s = Some s"
| "run_listeners env (l # ls) p s =
     (case run_listener env l p s of
        None \<Rightarrow> None
      | Some s' \<Rightarrow> run_listeners env ls p s')"

definition listeners_of :: "string \<Rightarrow> Socket \<Rightarrow> listener list" where
  "listeners_of ev sk = map snd (filter (\<lambda>(n, l). n = ev) (listeners sk))"

definition deliver ::
  "behaviour \<Rightarrow> string \<Rightarrow> payload \<Rightarrow> RealtimeModule \<Rightarrow> RealtimeModule option" where
  "deliver env ev p s =
     (case socket s of
        None \<Rightarrow> Some s
      | Some sk \<Rightarrow> run_listeners env (listeners_of ev sk) p s)"

definition set_connected :: "bool \<Rightarrow> RealtimeModule \<Rightarrow> RealtimeModule" where
  "set_connected b s =
     (case socket s of None \<Rightarrow> s | Some sk \<Rightarrow> s\<lparr>socket := Some (sk\<lparr>connected := b\<rparr>)\<rparr>)"

definition transport_connected :: "behaviour \<Rightarrow> RealtimeModule \<Rightarrow> RealtimeModule option" where
  "transport_connected env s = deliver env ''connect'' NoPayload (set_connected True s)"

definition transport_disconnected ::
  "behaviour \<Rightarrow> string \<Rightarrow> RealtimeModule \<Rightarrow> RealtimeModule option" where
  "transport_disconnected env reason s =
     deliver env ''disconnect'' (Text reason) (set_connected False s)"

definition transport_reconnected :: "behaviour \<Rightarrow> RealtimeModule \<Rightarrow> RealtimeModule option" where
  "transport_reconnected env s = deliver env ''reconnect'' NoPayload (set_connected True s)"

text \<open>A callback that returns without touching the module.\<close>

definition inert :: behaviour where
  "inert cb p s = (s, False)"


subsection \<open>A connected module\<close>

text \<open>
  The module after \<^verbatim>\<open>setSocketClient\<close>, \<^verbatim>\<open>connect\<close> and the transport's acknowledgement.
\<close>

definition connecting_module :: RealtimeModule where
  "connecting_module =
     (case connect (Some ''token'') (setSocketClient new_RealtimeModule) of
        Inl e \<Rightarrow> new_RealtimeModule
      | Inr s \<Rightarrow> s)"

definition connected_module :: RealtimeModule where
  "connected_module =
     (case transport_connected inert connecting_module of
        None \<Rightarrow> connecting_module
      | Some s \<Rightarrow> s)"

definition product_created :: payload where
  "product_created = Collection (SubscriptionPayload Create ''products'' ''{}'' ''t0'')"


text \<open>
  A connected module with one collection callback, one connection listener and one
  execution callback.
\<close>

definition registered_module :: RealtimeModule where
  "registered_module =
     subscribeToExecution ''42'' 9
       (onConnectionChange 5 (subscribe ''products'' ''id1'' 7 connected_module))"



subsection \<open>Calls on the module, and what they keep true\<close>

text \<open>
  The calls that the application and the transport make on the module, other than the
  delivery of an event to callbacks. \<open>Unsubscribe c cid\<close> is the invocation of the
  closure that \<^verbatim>\<open>subscribe\<close> returned for callback id \<open>cid\<close> on collection \<open>c\<close>.
\<close>

datatype call =
  Subscribe collection callbackId callback
  | Unsubscribe collection callbackId
  | SubscribeToExecution string callback
  | UnsubscribeFromExecution string callback
  | OnConnectionChange callback
  | Connect "string option"
  | Disconnect
  | TransportConnected bool
  | Replay

fun perform :: "call \<Rightarrow> RealtimeModule \<Rightarrow> RealtimeModule" where
  "perform (Subscribe c cid cb) s = subscribe c cid cb s"
| "perform (Unsubscribe c cid) s = unsubscribe c cid s"
| "perform (SubscribeToExecution i cb) s = subscribeToExecution i cb s"
| "perform (UnsubscribeFromExecution i cb) s = unsubscribeFromExecution i cb s"
| "perform (OnConnectionChange cb) s = onConnectionChange cb s"
| "perform (Connect tok) s = (case connect tok s of Inl e \<Rightarrow> s | Inr s' \<Rightarrow> s')"
| "perform Disconnect s = disconnect s"
| "perform (TransportConnected b) s = set_connected b s"
| "perform Replay s = resubscribeAll s"

definition perform_all :: "call list \<Rightarrow> RealtimeModule \<Rightarrow> RealtimeModule" where
  "perform_all cs s = fold perform cs s"

text \<open>
  What holds of the registry in every state these calls reach from a new module: the
  keys of the registry are distinct, no two collections share a record, and every
  registered record is in the store, holds at least one callback and has distinct
  callback ids.
\<close>

definition registry_ok :: "RealtimeModule \<Rightarrow> bool" where
  "registry_ok s \<longleftrightarrow>
     distinct (js_keys (subscriptions s)) \<and>
     distinct (map snd (js_entries (subscriptions s))) \<and>
     (\<forall>(c, a) \<in> set (js_entries (subscriptions s)).
        a < length (store s) \<and> 0 < js_size (callbacks (store s ! a)) \<and>
        distinct (js_keys (callbacks (store s ! a))))"

definition registered :: "collection \<Rightarrow> callbackId \<Rightarrow> RealtimeModule \<Rightarrow> bool" where
  "registered c cid s =
     (case js_get (subscriptions s) c of
        None \<Rightarrow> False
      | Some a \<Rightarrow> js_get (callbacks (store s ! a)) cid \<noteq> None)"

text \<open>
  The socket, when there is one, has under \<^verbatim>\<open>disconnect\<close> the one listener that
  \<^verbatim>\<open>connect\<close> registered.
\<close>

definition disconnect_listener_ok :: "RealtimeModule \<Rightarrow> bool" where
  "disconnect_listener_ok s \<longleftrightarrow>
     (case socket s of None \<Rightarrow> True | Some sk \<Rightarrow> listeners_of ''disconnect'' sk = [OnDisconnect])"

text \<open>A \<^verbatim>\<open>subscribe\<close> to collection \<open>c\<close> for which the generated callback id is \<open>cid\<close>.\<close>

fun subscribes_as :: "collection \<Rightarrow> callbackId \<Rightarrow> call \<Rightarrow> bool" where
  "subscribes_as c cid (Subscribe c' cid' cb) = (c' = c \<and> cid' = cid)"
| "subscribes_as c cid _ = False"

subsection \<open>The course of a dispatch\<close>

text \<open>
  The walk of \<^verbatim>\<open>forEach\<close> over the callback Map of the record at address \<open>a\<close>, begun in
  the state \<open>s\<close>, told position by position: \<open>turn env a p s i\<close> is the state of the module
  when the walk comes to position \<open>i\<close>, and \<open>found env a p s i\<close> is the entry that it finds
  in the Map at that position then, if there is one.
\<close>

fun turn :: "behaviour \<Rightarrow> nat \<Rightarrow> payload \<Rightarrow> RealtimeModule \<Rightarrow> nat \<Rightarrow> RealtimeModule" where
  "turn env a p s 0 = s"
| "turn env a p s (Suc i) =
     (let t = turn env a p s i
      in if i < length (callbacks (store t ! a))
         then (case callbacks (store t ! a) ! i of
                 None \<Rightarrow> t
               | Some (cid, cb) \<Rightarrow> call_callback env cb p t)
         else t)"

definition found ::
  "behaviour \<Rightarrow> nat \<Rightarrow> payload \<Rightarrow> RealtimeModule \<Rightarrow> nat \<Rightarrow> (callbackId \<times> callback) option" where
  "found env a p s i =
     (let m = callbacks (store (turn env a p s i) ! a) in if i < length m then m ! i else None)"

text \<open>
  The log of invocations belongs to the model. No call that a callback can make into the
  module writes it, so no callback does.
\<close>

definition keeps_log :: "behaviour \<Rightarrow> bool" where
  "keeps_log env \<longleftrightarrow> (\<forall>cb p s. invoked (fst (env cb p s)) = invoked s)"

text \<open>A Map \<open>m'\<close> that is the Map \<open>m\<close> with some of its entries removed.\<close>

definition thinned :: "('k, 'v) jsmap \<Rightarrow> ('k, 'v) jsmap \<Rightarrow> bool" where
  "thinned m' m \<longleftrightarrow> list_all2 (\<lambda>e' e. e' = None \<or> e' = e) m' m"

text \<open>
  One and two callbacks on one collection, and a second collection; callbacks that all
  raise; callbacks of which the first, when invoked, invokes the unsubscribe closure of the
  second; callbacks of which the first subscribes a third to the same collection; and
  callbacks of which the first invokes the unsubscribe closure of the callback of the other
  collection.
\<close>

definition one_callback :: RealtimeModule where
  "one_callback = subscribe ''products'' ''id1'' 7 connected_module"

definition two_callbacks :: RealtimeModule where
  "two_callbacks = subscribe ''products'' ''id2'' 8 one_callback"

definition two_collections :: RealtimeModule where
  "two_collections = subscribe ''orders'' ''id3'' 5 two_callbacks"

definition always_raises :: behaviour where
  "always_raises cb p s = (s, True)"

definition removes_sibling :: behaviour where
  "removes_sibling cb p s =
     (if cb = 7 then (unsubscribe ''products'' ''id2'' s, False) else (s, False))"

definition adds_callback :: behaviour where
  "adds_callback cb p s =
     (if cb = 7 then (subscribe ''products'' ''id4'' 9 s, False) else (s, False))"

definition leaves_collection :: behaviour where
  "leaves_collection cb p s =
     (if cb = 7 then (unsubscribe ''orders'' ''id3'' s, True) else (s, False))"

section \<open>The HTTP client (\<^verbatim>\<open>src/client.ts\<close>)\<close>

subsection \<open>Data\<close>

datatype AuthMode = Jwt | Cookie

text \<open>
  The storage adapters of the repository that keep the values themselves: the in-memory
  one and the one over the browser's \<^verbatim>\<open>localStorage\<close>. (The third adapter hands every call
  to an object of the application.) They differ in what \<^verbatim>\<open>set\<close> does with a value that is
  \<^verbatim>\<open>undefined\<close>; see \<open>storage_set\<close> below.
\<close>

datatype StorageAdapter = MemoryStorageAdapter | LocalStorageAdapter

text \<open>
  \<^verbatim>\<open>HttpClientConfig\<close>. The field \<^verbatim>\<open>storage\<close> of the source is the adapter; here \<open>adapter\<close>
  says which one it is and the values it holds are the field \<open>storage\<close> of the client below.
  The two optional callbacks are present or not; their calls are recorded in the trace.
\<close>

type_synonym headers = "(string \<times> string) list"

record HttpClientConfig =
  baseUrl :: string
  authMode :: AuthMode
  adapter :: StorageAdapter
  timeout :: nat
  autoRefresh :: bool
  credentials :: string
  headers :: headers
  token :: "string option"
  tenantId :: "string option"
  onAuthError :: bool
  onTokenRefresh :: bool

text \<open>
  \<^verbatim>\<open>AuthTokens\<close>; its field \<^verbatim>\<open>refreshToken\<close> is \<open>refresh_token\<close> here, the name
  \<open>refreshToken\<close> being the method of the client.
\<close>

record AuthTokens =
  accessToken :: "string option"
  refresh_token :: "string option"
  expiresIn :: "int option"
  expiresAt :: "int option"

text \<open>
  What is thrown: a \<^verbatim>\<open>BaasixError\<close> (message, status, code) or another JavaScript
  \<^verbatim>\<open>Error\<close> (name, message).
\<close>

datatype error =
  BaasixError string nat "string option"
  | JsError string string

text \<open>
  The body of a response, as far as the client looks into it: not JSON (\<^verbatim>\<open>response.json()\<close>
  throws); the JSON value \<^verbatim>\<open>null\<close> (reading a property of it throws); an object with the
  properties that \<^verbatim>\<open>refreshToken\<close> reads (\<^verbatim>\<open>token\<close>, \<^verbatim>\<open>refreshToken\<close>, \<^verbatim>\<open>expiresIn\<close>, each
  of them there or not); an object with the properties that \<^verbatim>\<open>parseError\<close> reads
  (\<^verbatim>\<open>error.message\<close>, \<^verbatim>\<open>message\<close>, \<^verbatim>\<open>error.code\<close>, each of them there or not); any other JSON
  value that is not \<^verbatim>\<open>null\<close>, kept as its text (for \<^verbatim>\<open>getUser\<close>, the text of its property
  \<^verbatim>\<open>data\<close>). Numbers are whole.
\<close>

datatype body =
  NoJson
  | JsonNull
  | TokenData "string option" "string option" "int option"
  | ErrorData "string option" "string option" "string option"
  | Data string

record Response =
  status :: nat
  statusText :: string
  body :: body

text \<open>
  What the network does with one \<^verbatim>\<open>fetch\<close>: after a delay in milliseconds, a response
  or a failure to obtain one.
\<close>

datatype reply =
  Answer nat Response
  | NetworkFailure nat string

text \<open>
  A URL is built by the platform's \<^verbatim>\<open>URL\<close> class; it is kept as what the class was given:
  the two arguments of \<^verbatim>\<open>new URL(path, base)\<close> and the calls of \<^verbatim>\<open>searchParams.set\<close> made on
  the object, in order.
\<close>

datatype url = URL string string "(string \<times> string) list"

text \<open>
  The value of a query parameter: \<^verbatim>\<open>undefined\<close>, \<^verbatim>\<open>null\<close>, an object (with the text that
  \<^verbatim>\<open>JSON.stringify\<close> gives for it), or anything else (with the text that \<^verbatim>\<open>String\<close> gives).
\<close>

datatype param = Undefined | Null | Object string | Primitive string

text \<open>
  The second argument of \<^verbatim>\<open>fetch\<close>, as far as the client writes it: HTTP method, headers,
  credentials mode and abort signal. A signal is known by the time at which it fires:
  \<open>Some t\<close> fires at \<open>t\<close>, and \<open>None\<close> is no signal (or one that never fires). The body
  and the other keys that a caller may pass through are left out.
\<close>

record RequestInit =
  init_method :: string
  init_headers :: headers
  init_credentials :: string
  init_signal :: "int option"

text \<open>
  The effects of the client that the claims are about, in order: a call of
  \<^verbatim>\<open>refreshToken\<close> that starts a refresh, a \<^verbatim>\<open>fetch\<close> (which call of the source it is, and
  its two arguments), the cancellation of a \<^verbatim>\<open>fetch\<close> by its abort signal, and the calls of
  the two callbacks and of the auth module's state listener.
\<close>

datatype origin = Original | Retry | Refresh

datatype effect =
  RefreshStarted
  | Fetch origin url RequestInit
  | Cancelled origin
  | AuthErrorNotified
  | TokenRefreshNotified AuthTokens
  | AuthStateChanged string

text \<open>
  The client, the storage adapter it was given, and its surroundings: the clock
  (\<^verbatim>\<open>Date.now()\<close>, milliseconds) and what the network will do with the coming \<^verbatim>\<open>fetch\<close>
  calls, in order. The functions below are one request running alone: no other request is
  in flight, so \<^verbatim>\<open>refreshPromise\<close> is null whenever \<^verbatim>\<open>refreshToken\<close> is entered; the
  sharing of a pending refresh is the subject of the refresh coordinator below.
\<close>

record HttpClient =
  config :: HttpClientConfig
  storage :: "string \<Rightarrow> string option"
  clock :: int
  network :: "reply list"
  trace :: "effect list"

text \<open>
  \<^verbatim>\<open>RequestOptions\<close>: the four keys of the client's own, and of the keys of \<^verbatim>\<open>RequestInit\<close>
  that it extends those that \<^verbatim>\<open>request\<close> also writes itself. \<open>None\<close> is a key that the
  caller did not pass.
\<close>

record RequestOptions =
  params :: "(string \<times> param) list option"
  opt_timeout :: "nat option"
  skipAuth :: bool
  rawResponse :: bool
  opt_method :: "string option"
  opt_headers :: "headers option"
  opt_credentials :: "string option"
  opt_signal :: "int option option"

datatype result =
  RawResponse Response
  | EmptyObject
  | Parsed body

definition ACCESS_TOKEN :: string where "ACCESS_TOKEN = ''baasix_access_token''"
definition REFRESH_TOKEN :: string where "REFRESH_TOKEN = ''baasix_refresh_token''"
definition TOKEN_EXPIRY :: string where "TOKEN_EXPIRY = ''baasix_token_expiry''"
definition USER :: string where "USER = ''baasix_user''"
definition TENANT :: string where "TENANT = ''baasix_tenant''"

subsection \<open>JavaScript values\<close>

text \<open>A string that is \<^verbatim>\<open>null\<close>, \<^verbatim>\<open>undefined\<close> or empty is falsy.\<close>

definition truthy :: "string option \<Rightarrow> bool" where
  "truthy x = (case x of None \<Rightarrow> False | Some v \<Rightarrow> v \<noteq> [])"

text \<open>Object literals with spread: a property that is set again keeps its place.\<close>

fun obj_set :: "headers \<Rightarrow> string \<Rightarrow> string \<Rightarrow> headers" where
  "obj_set [] k v = [(k, v)]"
| "obj_set ((k', v') # m) k v = (if k' = k then (k, v) # m else (k', v') # obj_set m k v)"

definition obj_spread :: "headers \<Rightarrow> headers \<Rightarrow> headers" where
  "obj_spread a b = fold (\<lambda>(k, v) m. obj_set m k v) b a"

text \<open>
  One key of an object literal that ends with a spread: the value written for the key in
  the literal, unless the object that is spread has the key, whose value then replaces it.
\<close>

definition spread_key :: "'a \<Rightarrow> 'a option \<Rightarrow> 'a" where
  "spread_key v given = (case given of None \<Rightarrow> v | Some w \<Rightarrow> w)"

text \<open>
  \<^verbatim>\<open>parseInt(s, 10)\<close>: leading white space, an optional sign, then the longest run of
  decimal digits; \<open>None\<close> is \<^verbatim>\<open>NaN\<close>.
\<close>

definition digit_value :: "char \<Rightarrow> nat option" where
  "digit_value c =
     map_of [(CHR ''0'', 0), (CHR ''1'', 1), (CHR ''2'', 2), (CHR ''3'', 3), (CHR ''4'', 4),
             (CHR ''5'', 5), (CHR ''6'', 6), (CHR ''7'', 7), (CHR ''8'', 8), (CHR ''9'', 9)] c"

fun parse_digits :: "string \<Rightarrow> nat \<Rightarrow> bool \<Rightarrow> nat option" where
  "parse_digits [] acc seen = (if seen then Some acc else None)"
| "parse_digits (c # cs) acc seen =
     (case digit_value c of
        None \<Rightarrow> (if seen then Some acc else None)
      | Some d \<Rightarrow> parse_digits cs (acc * 10 + d) True)"

definition isWhiteSpace :: "char \<Rightarrow> bool" where
  "isWhiteSpace c \<longleftrightarrow> c \<in> set [CHR '' '', CHR 0x09, CHR 0x0A, CHR 0x0B, CHR 0x0C, CHR 0x0D]"

definition parseInt :: "string \<Rightarrow> int option" where
  "parseInt s =
     (case dropWhile isWhiteSpace s of
        [] \<Rightarrow> None
      | c # r \<Rightarrow>
          if c = CHR ''-'' then map_option (\<lambda>n. - int n) (parse_digits r 0 False)
          else if c = CHR ''+'' then map_option int (parse_digits r 0 False)
          else map_option int (parse_digits (c # r) 0 False))"

text \<open>\<^verbatim>\<open>toString()\<close> of an integer.\<close>

definition digit_char :: "nat \<Rightarrow> char" where
  "digit_char d = ''0123456789'' ! d"

fun digits :: "nat \<Rightarrow> string" where
  "digits n = (if n < 10 then [digit_char n] else digits (n div 10) @ [digit_char (n mod 10)])"

declare digits.simps [simp del]

definition toString :: "int \<Rightarrow> string" where
  "toString i = (if i < 0 then CHR ''-'' # digits (nat (- i)) else digits (nat i))"

subsection \<open>The network\<close>

text \<open>
  \<^verbatim>\<open>response.ok\<close>, and \<^verbatim>\<open>fetch\<close>. A \<^verbatim>\<open>fetch\<close> that was given a signal and whose answer would
  come after the signal fires is cancelled when it fires and throws \<^verbatim>\<open>AbortError\<close>; a
  \<^verbatim>\<open>fetch\<close> without a signal waits for its answer however long that takes.
\<close>

definition ok :: "Response \<Rightarrow> bool" where
  "ok r \<longleftrightarrow> 200 \<le> status r \<and> status r < 300"

definition settle :: "reply \<Rightarrow> HttpClient \<Rightarrow> (error + Response) \<times> HttpClient" where
  "settle r s =
     (case r of
        Answer d resp \<Rightarrow> (Inr resp, s\<lparr>clock := clock s + int d\<rparr>)
      | NetworkFailure d msg \<Rightarrow> (Inl (JsError ''TypeError'' msg), s\<lparr>clock := clock s + int d\<rparr>))"

definition delay :: "reply \<Rightarrow> nat" where
  "delay r = (case r of Answer d resp \<Rightarrow> d | NetworkFailure d msg \<Rightarrow> d)"

definition fetch ::
  "origin \<Rightarrow> url \<Rightarrow> RequestInit \<Rightarrow> HttpClient \<Rightarrow> (error + Response) \<times> HttpClient" where
  "fetch og u init s =
     (let s1 = s\<lparr>trace := trace s @ [Fetch og u init]\<rparr>
      in case network s1 of
           [] \<Rightarrow> (Inl (JsError ''TypeError'' ''Failed to fetch''), s1)
         | r # rs \<Rightarrow>
             (let s2 = s1\<lparr>network := rs\<rparr>
              in case init_signal init of
                   None \<Rightarrow> settle r s2
                 | Some deadline \<Rightarrow>
                     if deadline < clock s2 + int (delay r)
                     then (Inl (JsError ''AbortError'' ''The operation was aborted''),
                           s2\<lparr>clock := max (clock s2) deadline,
                              trace := trace s2 @ [Cancelled og]\<rparr>)
                     else settle r s2))"

subsection \<open>The methods of \<^verbatim>\<open>HttpClient\<close>\<close>

text \<open>
  \<^verbatim>\<open>buildUrl\<close>: a parameter that is \<^verbatim>\<open>undefined\<close> or \<^verbatim>\<open>null\<close> is passed over, an object is
  set as its JSON text, anything else as its string.
\<close>

definition buildUrl :: "string \<Rightarrow> (string \<times> param) list option \<Rightarrow> HttpClient \<Rightarrow> url" where
  "buildUrl path ps s =
     URL path (baseUrl (config s))
       (case ps of
          None \<Rightarrow> []
        | Some entries \<Rightarrow>
            concat (map (\<lambda>(key, v).
                           case v of
                             Undefined \<Rightarrow> []
                           | Null \<Rightarrow> []
                           | Object json \<Rightarrow> [(key, json)]
                           | Primitive str \<Rightarrow> [(key, str)]) entries))"

definition getAccessToken :: "HttpClient \<Rightarrow> string option" where
  "getAccessToken s =
     (if truthy (token (config s)) then token (config s)
      else if authMode (config s) = Cookie then None
      else storage s ACCESS_TOKEN)"

definition isTokenExpired :: "HttpClient \<Rightarrow> bool" where
  "isTokenExpired s =
     (if \<not> truthy (storage s TOKEN_EXPIRY) then False
      else case parseInt (the (storage s TOKEN_EXPIRY)) of
             None \<Rightarrow> False
           | Some expiryTime \<Rightarrow> clock s \<ge> expiryTime - 60 * 1000)"

text \<open>
  \<^verbatim>\<open>storage.set(key, value)\<close>. The value is declared a string, and the client also passes
  what may be \<^verbatim>\<open>undefined\<close> (\<open>None\<close>). The in-memory adapter puts \<^verbatim>\<open>undefined\<close> in its Map,
  and its \<^verbatim>\<open>get\<close> then answers \<^verbatim>\<open>null\<close> as for a key that is absent; \<^verbatim>\<open>localStorage\<close> keeps
  the string \<^verbatim>\<open>undefined\<close>.
\<close>

definition storage_set :: "string \<Rightarrow> string option \<Rightarrow> HttpClient \<Rightarrow> HttpClient" where
  "storage_set k v s =
     s\<lparr>storage := (storage s)
          (k := (case v of
                   Some x \<Rightarrow> Some x
                 | None \<Rightarrow> (case adapter (config s) of
                              MemoryStorageAdapter \<Rightarrow> None
                            | LocalStorageAdapter \<Rightarrow> Some ''undefined'')))\<rparr>"

definition storage_remove :: "string \<Rightarrow> HttpClient \<Rightarrow> HttpClient" where
  "storage_remove k s = s\<lparr>storage := (storage s)(k := None)\<rparr>"

text \<open>
  The body of the asynchronous function that \<^verbatim>\<open>refreshToken\<close> starts and keeps in
  \<^verbatim>\<open>refreshPromise\<close>: the exchange with the refresh endpoint. Its last part, from the
  storing of the tokens to the call of \<^verbatim>\<open>onTokenRefresh\<close>, is \<open>store_tokens\<close>. An answer
  with a success status is read with \<^verbatim>\<open>response.json()\<close>, which throws when the body is not
  JSON; reading \<^verbatim>\<open>data.token\<close> throws when the value is \<^verbatim>\<open>null\<close> (the message of that
  \<^verbatim>\<open>TypeError\<close> depends on the engine); of any other value the three properties are read,
  each \<^verbatim>\<open>undefined\<close> when it is not there, and the refresh succeeds.
\<close>

definition store_tokens :: "AuthTokens \<Rightarrow> HttpClient \<Rightarrow> HttpClient" where
  "store_tokens t s =
     (let s1 = storage_set ACCESS_TOKEN (accessToken t) s;
          s2 = (if truthy (refresh_token t)
                then storage_set REFRESH_TOKEN (refresh_token t) s1 else s1);
          s3 = (case expiresAt t of
                  None \<Rightarrow> s2
                | Some e \<Rightarrow> if e \<noteq> 0 then storage_set TOKEN_EXPIRY (Some (toString e)) s2 else s2)
      in if onTokenRefresh (config s3)
         then s3\<lparr>trace := trace s3 @ [TokenRefreshNotified t]\<rparr> else s3)"

text \<open>The object that the exchange gives to \<^verbatim>\<open>fetch\<close>.\<close>

definition refresh_init :: "HttpClient \<Rightarrow> RequestInit" where
  "refresh_init s =
     \<lparr>init_method = ''POST'',
      init_headers = obj_spread [(''Content-Type'', ''application/json'')] (headers (config s)),
      init_credentials = credentials (config s),
      init_signal = None\<rparr>"

text \<open>
  The \<^verbatim>\<open>tokens\<close> object that the exchange builds from the parsed answer (\<^verbatim>\<open>data\<close> in the
  source) at the time \<open>now\<close>.
\<close>

definition tokens_of :: "body \<Rightarrow> int \<Rightarrow> AuthTokens" where
  "tokens_of parsed now =
     (case (case parsed of TokenData tok rt ei \<Rightarrow> (tok, rt, ei) | _ \<Rightarrow> (None, None, None)) of
        (tok, rt, ei) \<Rightarrow>
          \<lparr>accessToken = tok, refresh_token = rt, expiresIn = ei,
           expiresAt = (case ei of
                          None \<Rightarrow> None
                        | Some n \<Rightarrow> if n = 0 then None else Some (now + n * 1000))\<rparr>)"

definition refresh_exchange :: "HttpClient \<Rightarrow> (error + AuthTokens) \<times> HttpClient" where
  "refresh_exchange s0 =
     (let s = s0\<lparr>trace := trace s0 @ [RefreshStarted]\<rparr>;
          stored = storage s REFRESH_TOKEN
      in if \<not> truthy stored \<and> authMode (config s) = Jwt
         then (Inl (BaasixError ''No refresh token available'' 401 (Some ''NO_REFRESH_TOKEN'')), s)
         else
           (case fetch Refresh (buildUrl ''/auth/refresh'' None s) (refresh_init s) s of
              (Inl e, s1) \<Rightarrow> (Inl e, s1)
            | (Inr response, s1) \<Rightarrow>
                if \<not> ok response
                then (Inl (BaasixError ''Token refresh failed'' (status response)
                             (Some ''REFRESH_FAILED'')), s1)
                else
                  (case body response of
                     NoJson \<Rightarrow> (Inl (JsError ''SyntaxError'' ''Unexpected end of JSON input''), s1)
                   | JsonNull \<Rightarrow>
                       (Inl (JsError ''TypeError'' ''Cannot read properties of null''), s1)
                   | parsed \<Rightarrow>
                       (let tokens = tokens_of parsed (clock s1)
                        in (Inr tokens, store_tokens tokens s1)))))"

text \<open>
  \<^verbatim>\<open>refreshToken\<close> for a request that runs alone: \<^verbatim>\<open>refreshPromise\<close> is null on entry,
  the exchange runs, and \<^verbatim>\<open>finally\<close> sets \<^verbatim>\<open>refreshPromise\<close> back to null.
\<close>

definition refreshToken :: "HttpClient \<Rightarrow> (error + AuthTokens) \<times> HttpClient" where
  "refreshToken s = refresh_exchange s"

definition buildHeaders :: "bool \<Rightarrow> HttpClient \<Rightarrow> headers \<times> HttpClient" where
  "buildHeaders skip s =
     (let h0 = obj_spread [(''Content-Type'', ''application/json'')] (headers (config s));
          h1 = (if truthy (tenantId (config s))
                then obj_set h0 ''X-Tenant-Id'' (the (tenantId (config s))) else h0)
      in if skip then (h1, s)
         else if authMode (config s) = Jwt
         then (let s1 = (if autoRefresh (config s) \<and> isTokenExpired s
                         then snd (refreshToken s) else s)
               in if truthy (getAccessToken s1)
                  then (obj_set h1 ''Authorization'' (''Bearer '' @ the (getAccessToken s1)), s1)
                  else (h1, s1))
         else (h1, s))"

text \<open>
  \<^verbatim>\<open>parseError\<close>. Both its calls are the operand of a \<^verbatim>\<open>throw\<close>, so the result here is what
  is thrown: the \<^verbatim>\<open>BaasixError\<close> that it returns, or, for a body that is the JSON value
  \<^verbatim>\<open>null\<close>, the \<^verbatim>\<open>TypeError\<close> that reading \<^verbatim>\<open>errorData.error\<close> raises (its message depends
  on the engine). A body that is not JSON leaves \<^verbatim>\<open>errorData\<close> the empty object.
\<close>

definition parseError :: "Response \<Rightarrow> error" where
  "parseError r =
     (case body r of
        JsonNull \<Rightarrow> JsError ''TypeError'' ''Cannot read properties of null''
      | b \<Rightarrow>
          (case (case b of ErrorData em m c \<Rightarrow> (em, m, c) | _ \<Rightarrow> (None, None, None)) of
             (em, m, c) \<Rightarrow>
               BaasixError
                 (if truthy em then the em
                  else if truthy m then the m
                  else if statusText r \<noteq> [] then statusText r
                  else ''Request failed'')
                 (status r) c))"

text \<open>
  What both the first attempt and the retry do with a response: a failure for a status
  that is not a success, else the raw response if asked for, else an empty object for
  204, else the parsed body.
\<close>

definition finish :: "bool \<Rightarrow> Response \<Rightarrow> error + result" where
  "finish raw r =
     (if \<not> ok r then Inl (parseError r)
      else if raw then Inr (RawResponse r)
      else if status r = 204 then Inr EmptyObject
      else case body r of
             NoJson \<Rightarrow> Inl (JsError ''SyntaxError'' ''Unexpected end of JSON input'')
           | b \<Rightarrow> Inr (Parsed b))"

text \<open>The outer \<^verbatim>\<open>catch\<close> of \<^verbatim>\<open>request\<close>.\<close>

fun rethrow :: "error \<Rightarrow> error" where
  "rethrow (BaasixError m st c) = BaasixError m st c"
| "rethrow (JsError n m) =
     (if n = ''AbortError'' then BaasixError ''Request timeout'' 408 (Some ''TIMEOUT'')
      else BaasixError m 0 (Some ''NETWORK_ERROR''))"

definition notifyAuthError :: "HttpClient \<Rightarrow> HttpClient" where
  "notifyAuthError s =
     (if onAuthError (config s) then s\<lparr>trace := trace s @ [AuthErrorNotified]\<rparr> else s)"

definition requestTimeout :: "RequestOptions \<Rightarrow> HttpClient \<Rightarrow> nat" where
  "requestTimeout options s =
     (case opt_timeout options of
        None \<Rightarrow> timeout (config s)
      | Some t \<Rightarrow> if t = 0 then timeout (config s) else t)"

text \<open>
  The object that \<^verbatim>\<open>request\<close> gives to \<^verbatim>\<open>fetch\<close>, for the first attempt and for the retry:
  the method, the built headers with the caller's headers spread over them, the configured
  credentials, the signal (that of the timeout controller for the first attempt, none for
  the retry), and then the spread of the caller's remaining options, which replaces each
  of these four keys that the caller passed.
\<close>

definition fetch_init ::
  "string \<Rightarrow> headers \<Rightarrow> int option \<Rightarrow> RequestOptions \<Rightarrow> HttpClient \<Rightarrow> RequestInit" where
  "fetch_init meth hdrs signal options s =
     \<lparr>init_method = spread_key meth (opt_method options),
      init_headers =
        spread_key
          (obj_spread hdrs (case opt_headers options of None \<Rightarrow> [] | Some h \<Rightarrow> h))
          (opt_headers options),
      init_credentials = spread_key (credentials (config s)) (opt_credentials options),
      init_signal = spread_key signal (opt_signal options)\<rparr>"

definition request ::
  "string \<Rightarrow> string \<Rightarrow> RequestOptions \<Rightarrow> HttpClient \<Rightarrow> (error + result) \<times> HttpClient" where
  "request meth path options s =
     (let u = buildUrl path (params options) s;
          (hdrs, s1) = buildHeaders (skipAuth options) s;
          deadline = clock s1 + int (requestTimeout options s1)
      in case fetch Original u (fetch_init meth hdrs (Some deadline) options s1) s1 of
           (Inl e, s2) \<Rightarrow> (Inl (rethrow e), s2)
         | (Inr response, s2) \<Rightarrow>
             if status response = 401 \<and> \<not> skipAuth options \<and> autoRefresh (config s2)
             then
               (case refreshToken s2 of
                  (Inl e, s3) \<Rightarrow> (Inl (rethrow e), notifyAuthError s3)
                | (Inr tokens, s3) \<Rightarrow>
                    (let (retryHeaders, s4) = buildHeaders False s3
                     in case fetch Retry u (fetch_init meth retryHeaders None options s4) s4 of
                          (Inl e, s5) \<Rightarrow> (Inl (rethrow e), notifyAuthError s5)
                        | (Inr retryResponse, s5) \<Rightarrow>
                            (case finish (rawResponse options) retryResponse of
                               Inl e \<Rightarrow> (Inl (rethrow e), notifyAuthError s5)
                             | Inr v \<Rightarrow> (Inr v, s5))))
             else
               (case finish (rawResponse options) response of
                  Inl e \<Rightarrow> (Inl (rethrow e), s2)
                | Inr v \<Rightarrow> (Inr v, s2)))"

text \<open>
  The first attempt of \<^verbatim>\<open>request\<close> by itself (the headers, the timer, the \<^verbatim>\<open>fetch\<close> with
  the signal), to name its outcome in the properties below.
\<close>

definition first_attempt ::
  "string \<Rightarrow> string \<Rightarrow> RequestOptions \<Rightarrow> HttpClient \<Rightarrow> (error + Response) \<times> HttpClient" where
  "first_attempt meth path options s =
     (case buildHeaders (skipAuth options) s of
        (hdrs, s1) \<Rightarrow>
          fetch Original (buildUrl path (params options) s)
            (fetch_init meth hdrs (Some (clock s1 + int (requestTimeout options s1))) options s1)
            s1)"

text \<open>The retry of \<^verbatim>\<open>request\<close> by itself: the rebuilt headers and the second \<^verbatim>\<open>fetch\<close>.\<close>

definition retry_attempt ::
  "string \<Rightarrow> string \<Rightarrow> RequestOptions \<Rightarrow> HttpClient \<Rightarrow> (error + Response) \<times> HttpClient" where
  "retry_attempt meth path options s =
     (case buildHeaders False s of
        (hdrs, s1) \<Rightarrow>
          fetch Retry (buildUrl path (params options) s) (fetch_init meth hdrs None options s1)
            s1)"

text \<open>Counting effects in a trace.\<close>

definition refreshes :: "effect list \<Rightarrow> nat" where
  "refreshes tr = length (filter (\<lambda>e. e = RefreshStarted) tr)"

definition is_fetch :: "origin \<Rightarrow> effect \<Rightarrow> bool" where
  "is_fetch og e = (case e of Fetch og' u init \<Rightarrow> og' = og | _ \<Rightarrow> False)"

definition attempts :: "origin \<Rightarrow> effect list \<Rightarrow> nat" where
  "attempts og tr = length (filter (is_fetch og) tr)"

definition auth_errors :: "effect list \<Rightarrow> nat" where
  "auth_errors tr = length (filter (\<lambda>e. e = AuthErrorNotified) tr)"

text \<open>The effects that the exchange with the refresh endpoint has after it has started.\<close>

definition refresh_effect :: "effect \<Rightarrow> bool" where
  "refresh_effect e =
     (case e of Fetch og u init \<Rightarrow> og = Refresh | TokenRefreshNotified t \<Rightarrow> True | _ \<Rightarrow> False)"


subsection \<open>The auth module (\<^verbatim>\<open>src/modules/auth.ts\<close>): clearing the stored state\<close>

record AuthModule =
  client :: HttpClient
  currentUser :: "string option"

definition clearAuth :: "AuthModule \<Rightarrow> AuthModule" where
  "clearAuth a =
     a\<lparr>client :=
         storage_remove TENANT
           (storage_remove USER
              (storage_remove TOKEN_EXPIRY
                 (storage_remove REFRESH_TOKEN
                    (storage_remove ACCESS_TOKEN (client a))))),
       currentUser := None\<rparr>"

definition emitAuthStateChange :: "string \<Rightarrow> string option \<Rightarrow> AuthModule \<Rightarrow> AuthModule" where
  "emitAuthStateChange event user a =
     a\<lparr>currentUser := user,
       client := (client a)\<lparr>trace := trace (client a) @ [AuthStateChanged event]\<rparr>\<rparr>"

definition no_options :: RequestOptions where
  "no_options =
     \<lparr>params = None, opt_timeout = None, skipAuth = False, rawResponse = False,
      opt_method = None, opt_headers = None, opt_credentials = None, opt_signal = None\<rparr>"

text \<open>\<^verbatim>\<open>logout\<close>: the outcome of the request is ignored.\<close>

definition logout :: "AuthModule \<Rightarrow> AuthModule" where
  "logout a =
     (case request ''GET'' ''/auth/logout'' no_options (client a) of
        (r, c) \<Rightarrow> emitAuthStateChange ''SIGNED_OUT'' None (clearAuth (a\<lparr>client := c\<rparr>)))"


text \<open>
  \<^verbatim>\<open>getUser\<close>: the property \<^verbatim>\<open>data\<close> of the answer is cached and its JSON text stored (for
  an answer without the property both are \<^verbatim>\<open>undefined\<close>; reading the property of \<^verbatim>\<open>null\<close>
  throws); a failure with status 401 clears the stored state and gives \<^verbatim>\<open>null\<close>; any other
  failure is thrown again.
\<close>

definition getUser :: "AuthModule \<Rightarrow> (error + string option) \<times> AuthModule" where
  "getUser a =
     (case request ''GET'' ''/auth/me'' no_options (client a) of
        (Inr v, c) \<Rightarrow>
          (case v of
             Parsed JsonNull \<Rightarrow>
               (Inl (JsError ''TypeError'' ''Cannot read properties of null''), a\<lparr>client := c\<rparr>)
           | Parsed (Data user) \<Rightarrow>
               (Inr (Some user),
                a\<lparr>client := storage_set USER (Some user) c, currentUser := Some user\<rparr>)
           | _ \<Rightarrow> (Inr None, a\<lparr>client := storage_set USER None c, currentUser := None\<rparr>))
      | (Inl e, c) \<Rightarrow>
          (case e of
             BaasixError m st code \<Rightarrow>
               if st = 401 then (Inr None, clearAuth (a\<lparr>client := c\<rparr>))
               else (Inl e, a\<lparr>client := c\<rparr>)
           | JsError n m \<Rightarrow> (Inl e, a\<lparr>client := c\<rparr>)))"

subsection \<open>A signed-in client and some answers\<close>

definition jwt_config :: HttpClientConfig where
  "jwt_config =
     \<lparr>baseUrl = ''https://api.example.com'', authMode = Jwt, adapter = MemoryStorageAdapter,
      timeout = 30000, autoRefresh = True, credentials = ''same-origin'', headers = [],
      token = None, tenantId = None, onAuthError = True, onTokenRefresh = True\<rparr>"

definition signed_in :: "reply list \<Rightarrow> HttpClient" where
  "signed_in net =
     \<lparr>config = jwt_config,
      storage = [ACCESS_TOKEN \<mapsto> ''a0'', REFRESH_TOKEN \<mapsto> ''r0''],
      clock = 1000000, network = net, trace = []\<rparr>"

text \<open>The same client with a stored expiry 30 seconds away.\<close>

definition expiring :: "reply list \<Rightarrow> HttpClient" where
  "expiring net = storage_set TOKEN_EXPIRY (Some ''1030000'') (signed_in net)"

definition unauthorized :: Response where
  "unauthorized = \<lparr>status = 401, statusText = ''Unauthorized'', body = NoJson\<rparr>"

definition success :: "body \<Rightarrow> Response" where
  "success b = \<lparr>status = 200, statusText = ''OK'', body = b\<rparr>"

text \<open>The same client again, configured with a static token.\<close>

definition with_static_token :: "reply list \<Rightarrow> HttpClient" where
  "with_static_token net = (expiring net)\<lparr>config := jwt_config\<lparr>token := Some ''t0''\<rparr>\<rparr>"


section \<open>The refresh coordinator (\<^verbatim>\<open>HttpClient.refreshToken\<close> under interleaving)\<close>

text \<open>
  Requests run on one thread and give way to each other at every \<^verbatim>\<open>await\<close>. What they
  share in \<^verbatim>\<open>refreshToken\<close> is the field \<^verbatim>\<open>refreshPromise\<close>. A promise is pending or settled
  with its outcome; the address of a promise is its index in \<open>promises\<close>. Three things
  happen, in any order that the guards allow:
  \<^item> \<open>Call k\<close>: caller \<open>k\<close> enters \<^verbatim>\<open>refreshToken\<close>. If \<^verbatim>\<open>refreshPromise\<close> is set, the caller is
    given that promise. Otherwise the asynchronous function is started (it runs up to its
    first \<^verbatim>\<open>await\<close>, the read of the storage), its promise is assigned to
    \<^verbatim>\<open>refreshPromise\<close> and given to the caller. Nothing else runs between the test and the
    assignment.
  \<^item> \<open>Run a\<close>: the asynchronous function of the pending promise \<open>a\<close> runs to its end: the
    exchange with the refresh endpoint, then \<^verbatim>\<open>finally\<close> sets \<^verbatim>\<open>refreshPromise\<close> to null, then
    the promise settles. While the exchange waits for the storage or the network other
    callers may run; they read \<^verbatim>\<open>refreshPromise\<close> and never write it, so the exchange is
    one step here and \<open>Call\<close> steps may come before it.
  \<^item> \<open>Resume k\<close>: caller \<open>k\<close>, whose promise has settled, continues with the outcome. The
    entry records the value of \<^verbatim>\<open>refreshPromise\<close> that the caller finds.
  The storage adapter's \<^verbatim>\<open>get\<close> does not throw.
\<close>

datatype promise = Pending | Settled "error + AuthTokens"

type_synonym caller = nat

record Coordinator =
  http :: HttpClient
  refreshPromise :: "nat option"
  promises :: "promise list"
  awaiting :: "(caller \<times> nat) list"
  returned :: "(caller \<times> nat \<times> (error + AuthTokens) \<times> nat option) list"

definition new_Coordinator :: "HttpClient \<Rightarrow> Coordinator" where
  "new_Coordinator c =
     \<lparr>http = c, refreshPromise = None, promises = [], awaiting = [], returned = []\<rparr>"

datatype event = Call caller | Run nat | Resume caller

fun step :: "event \<Rightarrow> Coordinator \<Rightarrow> Coordinator option" where
  "step (Call k) s =
     Some (case refreshPromise s of
             Some a \<Rightarrow> s\<lparr>awaiting := awaiting s @ [(k, a)]\<rparr>
           | None \<Rightarrow>
               s\<lparr>promises := promises s @ [Pending],
                 refreshPromise := Some (length (promises s)),
                 awaiting := awaiting s @ [(k, length (promises s))]\<rparr>)"
| "step (Run a) s =
     (if a < length (promises s) \<and> promises s ! a = Pending
      then (case refresh_exchange (http s) of
              (r, c) \<Rightarrow>
                Some (s\<lparr>http := c, refreshPromise := None,
                       promises := (promises s)[a := Settled r]\<rparr>))
      else None)"
| "step (Resume k) s =
     (case map_of (awaiting s) k of
        None \<Rightarrow> None
      | Some a \<Rightarrow>
          if a < length (promises s)
          then (case promises s ! a of
                  Pending \<Rightarrow> None
                | Settled r \<Rightarrow>
                    Some (s\<lparr>awaiting := remove1 (k, a) (awaiting s),
                           returned := returned s @ [(k, a, r, refreshPromise s)]\<rparr>))
          else None)"

fun run :: "event list \<Rightarrow> Coordinator \<Rightarrow> Coordinator option" where
  "run [] s = Some s"
| "run (e # es) s = (case step e s of None \<Rightarrow> None | Some s' \<Rightarrow> run es s')"

definition settled :: "promise list \<Rightarrow> nat" where
  "settled ps = length (filter (\<lambda>p. p \<noteq> Pending) ps)"

text \<open>
  What every state reached from a new coordinator satisfies; \<open>n0\<close> is the number of
  refresh calls on the network before it was new. \<^verbatim>\<open>refreshPromise\<close> points to a promise
  that exists; a promise is pending exactly when \<^verbatim>\<open>refreshPromise\<close> points to it; the
  network has seen at most one refresh call for each settled promise; every promise but
  the one \<^verbatim>\<open>refreshPromise\<close> points to is settled; and every caller that has returned
  got the outcome of the promise it was given, and found \<^verbatim>\<open>refreshPromise\<close> not pointing to
  that promise.
\<close>

definition coordinated :: "nat \<Rightarrow> Coordinator \<Rightarrow> bool" where
  "coordinated n0 s \<longleftrightarrow>
     (\<forall>a. refreshPromise s = Some a \<longrightarrow> a < length (promises s)) \<and>
     (\<forall>b < length (promises s). (promises s ! b = Pending) = (refreshPromise s = Some b)) \<and>
     attempts Refresh (trace (http s)) \<le> n0 + settled (promises s) \<and>
     length (promises s) = settled (promises s) + (if refreshPromise s = None then 0 else 1) \<and>
     (\<forall>(k, a, r, seen) \<in> set (returned s).
        a < length (promises s) \<and> promises s ! a = Settled r \<and> seen \<noteq> Some a)"


definition two_episodes :: "event list" where
  "two_episodes =
     [Call 1, Call 2, Call 3, Run 0, Resume 2, Call 4, Resume 1, Resume 3, Run 1, Resume 4]"


section \<open>Properties of the Map operations\<close>

lemma js_entries_simps [simp]:
  "js_entries [] = []"
  "js_entries (None # m) = js_entries m"
  "js_entries (Some e # m) = e # js_entries m"
  by (simp_all add: js_entries_def)

lemma js_keys_simps [simp]:
  "js_keys [] = []"
  "js_keys (None # m) = js_keys m"
  "js_keys (Some (k, v) # m) = k # js_keys m"
  by (simp_all add: js_keys_def)

lemma js_size_simps [simp]:
  "js_size [] = 0"
  "js_size (None # m) = js_size m"
  "js_size (Some e # m) = Suc (js_size m)"
  by (simp_all add: js_size_def)

lemma js_size_entries: "js_size m = length (js_entries m)"
proof (induction m)
  case (Cons e m)
  then show ?case by (cases e) simp_all
qed simp

lemma js_get_map_of: "js_get m k = map_of (js_entries m) k"
  by (induction m k rule: js_get.induct) simp_all

lemma js_get_None_iff: "js_get m k = None \<longleftrightarrow> k \<notin> set (js_keys m)"
  by (induction m k rule: js_get.induct) auto

lemma js_get_set: "js_get (js_set m k v) k' = (if k' = k then Some v else js_get m k')"
  by (induction m k v rule: js_set.induct) auto

lemma js_keys_set: "js_keys (js_set m k v) = (if k \<in> set (js_keys m) then js_keys m else js_keys m @ [k])"
  by (induction m k v rule: js_set.induct) auto

lemma js_entries_set_new:
  "k \<notin> set (js_keys m) \<Longrightarrow> js_entries (js_set m k v) = js_entries m @ [(k, v)]"
  by (induction m k v rule: js_set.induct) auto

lemma js_size_set_pos: "0 < js_size (js_set m k v)"
  by (induction m k v rule: js_set.induct) auto

lemma js_entries_delete:
  "distinct (js_keys m) \<Longrightarrow> js_entries (js_delete m k) = filter (\<lambda>e. fst e \<noteq> k) (js_entries m)"
proof (induction m k rule: js_delete.induct)
  case (3 k' v m k)
  then show ?case by (auto simp: js_keys_def intro!: filter_True[symmetric])
qed simp_all

lemma js_keys_delete:
  "distinct (js_keys m) \<Longrightarrow> js_keys (js_delete m k) = filter (\<lambda>x. x \<noteq> k) (js_keys m)"
  by (simp add: js_keys_def js_entries_delete[unfolded js_keys_def] filter_map comp_def)

lemma js_delete_absent: "js_get m k = None \<Longrightarrow> js_delete m k = m"
  by (induction m k rule: js_delete.induct) (auto split: if_splits)

lemma js_get_delete_other: "k' \<noteq> k \<Longrightarrow> js_get (js_delete m k) k' = js_get m k'"
  by (induction m k rule: js_delete.induct) auto

lemma js_get_delete_same: "distinct (js_keys m) \<Longrightarrow> js_get (js_delete m k) k = None"
  by (induction m k rule: js_delete.induct) (auto simp: js_get_None_iff)

lemma js_get_delete_None: "js_get m k' = None \<Longrightarrow> js_get (js_delete m k) k' = None"
  by (induction m k rule: js_delete.induct) (auto split: if_splits)

lemma length_js_delete [simp]: "length (js_delete m k) = length m"
  by (induction m k rule: js_delete.induct) auto

lemma nth_js_delete: "i < length m \<Longrightarrow> js_delete m k ! i = None \<or> js_delete m k ! i = m ! i"
  by (induction m k arbitrary: i rule: js_delete.induct) (auto simp: nth_Cons')

lemma distinct_js_keys_set: "distinct (js_keys m) \<Longrightarrow> distinct (js_keys (js_set m k v))"
  by (simp add: js_keys_set)

lemma distinct_js_keys_delete: "distinct (js_keys m) \<Longrightarrow> distinct (js_keys (js_delete m k))"
  by (simp add: js_keys_delete)

lemma js_entries_clear [simp]: "js_entries (js_clear m) = []"
  by (induction m) (simp_all add: js_clear_def)

lemma js_get_clear [simp]: "js_get (js_clear m) k = None"
  by (induction m) (simp_all add: js_clear_def)


section \<open>Properties of the realtime module\<close>

lemmas realtime_defs =
  connect_def setSocketClient_def new_RealtimeModule_def transport_connected_def deliver_def
  set_connected_def listeners_of_def notifyConnectionChange_def isConnected_def subscribe_def
  subscribeOnServer_def setupCollectionListeners_def events_def socket_on_def eventName_def
  handleCollectionEvent_def call_callback_def inert_def connecting_module_def
  connected_module_def transport_disconnected_def transport_reconnected_def
  resubscribeAll_def js_keys_def js_entries_def List.map_filter_def product_created_def
  registered_module_def subscribeToExecution_def onConnectionChange_def
  one_callback_def two_callbacks_def always_raises_def removes_sibling_def unsubscribe_def js_size_def
  unsubscribeOnServer_def removeCollectionListeners_def socket_off_def perform_all_def

subsection \<open>Replay after a reconnect\<close>

text \<open>
  C3. The claim: after a disconnect and reconnect, the replay re-sends a subscribe intent
  for every registered collection, leaves the callback sets alone, and each inbound event
  is then delivered exactly once to each registered callback. The code re-sends the intent
  and leaves the callback sets alone, but \<^verbatim>\<open>resubscribeAll\<close> calls
  \<^verbatim>\<open>setupCollectionListeners\<close> on the socket that already carries the listeners of the
  first \<^verbatim>\<open>subscribe\<close>, and nothing removes those. One callback subscribed to
  \<^verbatim>\<open>products\<close> on a connected module, a disconnect and a reconnect reported by the
  transport, then one \<^verbatim>\<open>products:create\<close> event: the subscribe intent is on the wire
  twice (once from \<^verbatim>\<open>subscribe\<close>, once from the replay), the callback set still holds the
  one callback, and the callback is invoked twice for the one event.
\<close>

theorem C3_replay_delivers_event_twice:
  "map_option (\<lambda>s. (wire s, map callbacks (store s), invoked s))
     (transport_disconnected inert ''transport close''
        (subscribe ''products'' ''id1'' 7 connected_module)
      \<bind> transport_reconnected inert
      \<bind> deliver inert ''products:create'' product_created)
   = Some ([Open (Some ''token''), SocketConnect,
            Emit ''subscribe'' ''products'', Emit ''subscribe'' ''products''],
           [[Some (''id1'', 7)]],
           [(7, product_created), (7, product_created)])"
  by (simp add: realtime_defs forEach_callbacks.simps)

subsection \<open>Explicit disconnect and transport-reported disconnect\<close>

text \<open>
  C6. \<^verbatim>\<open>disconnect()\<close> empties the subscription registry and the execution channel
  registry, calls \<^verbatim>\<open>socket.disconnect()\<close> and drops the socket. A disconnect reported by
  the transport, on a socket whose \<^verbatim>\<open>disconnect\<close> listener is the one \<^verbatim>\<open>connect\<close>
  registered, notifies every connection listener with \<^verbatim>\<open>false\<close>, marks the socket as
  not connected and changes nothing else of the module: the registry, its records and
  their callback sets are as before.
\<close>

theorem C6_disconnect_clears_transport_disconnect_keeps:
  assumes "socket s = Some sk" and "listeners_of ''disconnect'' sk = [OnDisconnect]"
  shows "js_entries (subscriptions (disconnect s)) = [] \<and>
         js_entries (workflowCallbacks (disconnect s)) = [] \<and>
         socket (disconnect s) = None \<and>
         wire (disconnect s) = wire s @ [SocketDisconnect] \<and>
         transport_disconnected env reason s =
           Some (s\<lparr>socket := Some (sk\<lparr>connected := False\<rparr>),
                  notified := notified s @ map (\<lambda>cb. (cb, False)) (connectionCallbacks s)\<rparr>)"
  using assms
  by (simp add: disconnect_def js_clear_def js_entries_def List.map_filter_def
      transport_disconnected_def deliver_def set_connected_def listeners_of_def
      notifyConnectionChange_def filter_empty_conv)


theorem C6_witness:
  "js_entries (subscriptions registered_module) = [(''products'', 0)] \<and>
   js_entries (workflowCallbacks registered_module) = [(''42'', [9])] \<and>
   js_entries (subscriptions (disconnect registered_module)) = [] \<and>
   js_entries (workflowCallbacks (disconnect registered_module)) = [] \<and>
   socket (disconnect registered_module) = None \<and>
   wire (disconnect registered_module) = wire registered_module @ [SocketDisconnect] \<and>
   map_option (\<lambda>s. (subscriptions s, store s, notified s))
     (transport_disconnected inert ''transport close'' registered_module) =
     Some ([Some (''products'', 0)],
           [\<lparr>collection = ''products'', callbacks = [Some (''id1'', 7)]\<rparr>],
           [(5, False)])"
proof -
  obtain sk where sk: "socket registered_module = Some sk"
    and l: "listeners_of ''disconnect'' sk = [OnDisconnect]"
    by (simp add: realtime_defs)
  have r: "subscriptions registered_module = [Some (''products'', 0)]"
    "store registered_module = [\<lparr>collection = ''products'', callbacks = [Some (''id1'', 7)]\<rparr>]"
    "notified registered_module = []" "connectionCallbacks registered_module = [5]"
    "workflowCallbacks registered_module = [Some (''42'', [9])]"
    by (simp_all add: realtime_defs)
  from C6_disconnect_clears_transport_disconnect_keeps [OF sk l, of inert "''transport close''"]
  show ?thesis by (simp add: r js_entries_def List.map_filter_def)
qed

text \<open>Without a socket, \<^verbatim>\<open>disconnect()\<close> empties the two registries and calls nothing.\<close>

lemma disconnect_without_socket:
  assumes "socket s = None"
  shows "js_entries (subscriptions (disconnect s)) = [] \<and>
         js_entries (workflowCallbacks (disconnect s)) = [] \<and>
         socket (disconnect s) = None \<and> wire (disconnect s) = wire s"
  using assms
  by (simp add: disconnect_def js_clear_def js_entries_def List.map_filter_def filter_empty_conv)

subsection \<open>Subscribe and unsubscribe\<close>

lemma subscribe_first:
  assumes "js_get (subscriptions s) c = None"
  shows "subscribe c cid cb s =
     s\<lparr>store := store s @ [\<lparr>collection = c, callbacks = [Some (cid, cb)]\<rparr>],
       subscriptions := js_set (subscriptions s) c (length (store s)),
       wire := wire s @ (if isConnected s then [Emit ''subscribe'' c] else []),
       socket := map_option
         (\<lambda>sk. sk\<lparr>listeners := listeners sk @
            [(c @ '':create'', OnCollection c), (c @ '':update'', OnCollection c),
             (c @ '':delete'', OnCollection c)]\<rparr>) (socket s)\<rparr>"
  using assms
  by (cases "socket s")
     (simp_all add: subscribe_def subscribeOnServer_def setupCollectionListeners_def isConnected_def
       events_def socket_on_def eventName_def Let_def)

lemma unsubscribe_registered:
  assumes "js_get (subscriptions s) c = Some a" 
    and "a < length (store s)"
    and "distinct (js_keys (callbacks (store s ! a)))"
  shows "let m = js_delete (callbacks (store s ! a)) cid;
             st = (store s)[a := (store s ! a)\<lparr>callbacks := m\<rparr>]
         in js_entries m = filter (\<lambda>e. fst e \<noteq> cid) (js_entries (callbacks (store s ! a))) \<and>
            unsubscribe c cid s =
              (if js_entries m = []
               then s\<lparr>store := st,
                      subscriptions := js_delete (subscriptions s) c,
                      wire := wire s @ (if isConnected s then [Emit ''unsubscribe'' c] else []),
                      socket := map_option
                        (\<lambda>sk. sk\<lparr>listeners :=
                           filter (\<lambda>(n, l). n \<notin> {c @ '':create'', c @ '':update'', c @ '':delete''})
                             (listeners sk)\<rparr>) (socket s)\<rparr>
               else s\<lparr>store := st\<rparr>)"
  using assms
  apply (cases "socket s")
   apply (simp_all add: unsubscribe_def unsubscribeOnServer_def removeCollectionListeners_def isConnected_def
       events_def socket_off_def eventName_def Let_def js_entries_delete js_size_entries)
  apply (auto simp: case_prod_unfold intro!: filter_cong)
  done

text \<open>
  C5. The claim: the first \<^verbatim>\<open>subscribe\<close> to a collection creates the record, sends one
  subscribe intent and attaches the collection's listeners; a later \<^verbatim>\<open>subscribe\<close> only
  adds the callback; an unsubscribe closure removes its own callback and, only when that
  empties the set, the record is deleted, one unsubscribe intent is sent and the listeners
  are detached. As stated it fails on a module that is not connected: \<^verbatim>\<open>subscribeOnServer\<close>
  and \<^verbatim>\<open>unsubscribeOnServer\<close> emit only when \<^verbatim>\<open>socket.connected\<close>, and the listeners are
  attached and detached only when there is a socket. On a module that never connected the
  first \<^verbatim>\<open>subscribe\<close> creates the record, sends nothing and attaches nothing.
\<close>

theorem C5_counterexample:
  "js_entries (subscriptions (subscribe ''products'' ''id1'' 7 new_RealtimeModule)) =
     [(''products'', 0)] \<and>
   store (subscribe ''products'' ''id1'' 7 new_RealtimeModule) =
     [\<lparr>collection = ''products'', callbacks = [Some (''id1'', 7)]\<rparr>] \<and>
   wire (subscribe ''products'' ''id1'' 7 new_RealtimeModule) = [] \<and>
   socket (subscribe ''products'' ''id1'' 7 new_RealtimeModule) = None"
  by (simp add: realtime_defs)

text \<open>
  C5, amended. In a state \<open>s1\<close> where the collection has no record, \<^verbatim>\<open>subscribe\<close> adds
  the record with the one callback, sends one subscribe intent if the socket is connected
  and none otherwise, appends the three listeners of the collection if there is a socket,
  and changes nothing else. In a state \<open>s2\<close> where the collection has a record,
  \<^verbatim>\<open>subscribe\<close> sets the callback under its id in that record and changes nothing else.
  In a state \<open>s3\<close> where the collection has a record, the unsubscribe closure removes the
  entry of its own callback id from that record and no other entry; if the record still
  holds a callback nothing else changes, and if it holds none the collection is removed
  from the registry, one unsubscribe intent is sent if the socket is connected, and every
  listener of the collection's three events is removed if there is a socket.
\<close>

theorem C5_subscribe_unsubscribe:
  assumes "js_get (subscriptions s1) c1 = None"
    and "js_get (subscriptions s2) c2 = Some a2"
    and "js_get (subscriptions s3) c3 = Some a3"
    and "a3 < length (store s3)"
    and "distinct (js_keys (callbacks (store s3 ! a3)))"
  shows
    "subscribe c1 cid1 cb1 s1 =
       s1\<lparr>store := store s1 @ [\<lparr>collection = c1, callbacks = [Some (cid1, cb1)]\<rparr>],
          subscriptions := js_set (subscriptions s1) c1 (length (store s1)),
          wire := wire s1 @ (if isConnected s1 then [Emit ''subscribe'' c1] else []),
          socket := map_option
            (\<lambda>sk. sk\<lparr>listeners := listeners sk @
               [(c1 @ '':create'', OnCollection c1), (c1 @ '':update'', OnCollection c1),
                (c1 @ '':delete'', OnCollection c1)]\<rparr>) (socket s1)\<rparr> \<and>
     subscribe c2 cid2 cb2 s2 =
       s2\<lparr>store := (store s2)
          [a2 := (store s2 ! a2)\<lparr>callbacks := js_set (callbacks (store s2 ! a2)) cid2 cb2\<rparr>]\<rparr> \<and>
     (let m = js_delete (callbacks (store s3 ! a3)) cid3;
          st = (store s3)[a3 := (store s3 ! a3)\<lparr>callbacks := m\<rparr>]
      in js_entries m = filter (\<lambda>e. fst e \<noteq> cid3) (js_entries (callbacks (store s3 ! a3))) \<and>
         unsubscribe c3 cid3 s3 =
           (if js_entries m = []
            then s3\<lparr>store := st,
                    subscriptions := js_delete (subscriptions s3) c3,
                    wire := wire s3 @ (if isConnected s3 then [Emit ''unsubscribe'' c3] else []),
                    socket := map_option
                      (\<lambda>sk. sk\<lparr>listeners :=
                         filter (\<lambda>(n, l). n \<notin> {c3 @ '':create'', c3 @ '':update'', c3 @ '':delete''})
                           (listeners sk)\<rparr>) (socket s3)\<rparr>
            else s3\<lparr>store := st\<rparr>))"
  using subscribe_first [OF assms(1)] unsubscribe_registered [OF assms(3,4,5)] assms(2)
  by (simp add: subscribe_def)

theorem C5_witness:
  "js_get (subscriptions connected_module) ''products'' = None \<and>
   js_get (subscriptions one_callback) ''products'' = Some 0 \<and>
   wire (subscribe ''products'' ''id1'' 7 connected_module) =
     wire connected_module @ [Emit ''subscribe'' ''products''] \<and>
   js_entries (subscriptions (subscribe ''products'' ''id1'' 7 connected_module)) = [(''products'', 0)] \<and>
   wire (subscribe ''products'' ''id2'' 8 one_callback) = wire one_callback \<and>
   socket (subscribe ''products'' ''id2'' 8 one_callback) = socket one_callback \<and>
   js_entries (callbacks (store (subscribe ''products'' ''id2'' 8 one_callback) ! 0)) =
     [(''id1'', 7), (''id2'', 8)] \<and>
   wire (unsubscribe ''products'' ''id1'' one_callback) =
     wire one_callback @ [Emit ''unsubscribe'' ''products''] \<and>
   js_entries (subscriptions (unsubscribe ''products'' ''id1'' one_callback)) = [] \<and>
   socket (unsubscribe ''products'' ''id1'' one_callback) = socket connected_module"
proof -
  have 1: "js_get (subscriptions connected_module) ''products'' = None"
    by (simp add: realtime_defs)
  have 2: "js_get (subscriptions one_callback) ''products'' = Some 0"
    "0 < length (store one_callback)"
    "distinct (js_keys (callbacks (store one_callback ! 0)))"
    by (simp_all add: realtime_defs)
  have 3: "isConnected connected_module" "isConnected one_callback"
    "store connected_module = []" "subscriptions connected_module = []"
    "store one_callback = [\<lparr>collection = ''products'', callbacks = [Some (''id1'', 7)]\<rparr>]"
    "subscriptions one_callback = [Some (''products'', 0)]"
    by (simp_all add: realtime_defs)
  have 4: "socket one_callback = map_option
            (\<lambda>sk. sk\<lparr>listeners := listeners sk @
               [(''products:create'', OnCollection ''products''), (''products:update'', OnCollection ''products''),
                (''products:delete'', OnCollection ''products'')]\<rparr>) (socket connected_module)"
    by (simp add: realtime_defs)
  have 5: "\<exists>sk. socket connected_module = Some sk \<and> (\<forall>(n, l) \<in> set (listeners sk). n \<notin> {''products:create'', ''products:update'', ''products:delete''})"
    by (simp add: realtime_defs)
  from C5_subscribe_unsubscribe [OF 1 2(1) 2, where ?cid1.0 = "''id1''" and ?cb1.0 = 7
      and ?cid2.0 = "''id2''" and ?cb2.0 = 8 and ?cid3.0 = "''id1''"] 1 2 5
  show ?thesis
    by (auto simp add: 3 4 Let_def)
qed

subsection \<open>The invariant of the registry\<close>

lemma js_get_Some_entries: "js_get m k = Some v \<Longrightarrow> (k, v) \<in> set (js_entries m)"
  by (simp add: js_get_map_of map_of_SomeD)

lemma entries_js_get: "distinct (js_keys m) \<Longrightarrow> (k, v) \<in> set (js_entries m) \<Longrightarrow> js_get m k = Some v"
  by (simp add: js_get_map_of js_keys_def)

lemma registry_okD:
  assumes "registry_ok s" "js_get (subscriptions s) c = Some a"
  shows "a < length (store s)" "0 < js_size (callbacks (store s ! a))"
    "distinct (js_keys (callbacks (store s ! a)))"
  using assms js_get_Some_entries[OF assms(2)] by (auto simp: registry_ok_def)

lemma registry_ok_inj:
  assumes "registry_ok s" "js_get (subscriptions s) c = Some a" "js_get (subscriptions s) c' = Some a" 
  shows "c' = c"
proof -
  have d: "distinct (map snd (js_entries (subscriptions s)))" using assms(1) by (simp add: registry_ok_def)
  have "(c, a) \<in> set (js_entries (subscriptions s))" "(c', a) \<in> set (js_entries (subscriptions s))"
    using assms by (auto dest: js_get_Some_entries)
  with d show ?thesis
    by (metis (no_types, lifting) distinct_map inj_on_def snd_conv fst_conv)
qed

lemma setup_fields [simp]:
  "subscriptions (setupCollectionListeners c s) = subscriptions s"
  "store (setupCollectionListeners c s) = store s"
  "subscriptions (subscribeOnServer c s) = subscriptions s"
  "store (subscribeOnServer c s) = store s"
  "subscriptions (unsubscribeOnServer c s) = subscriptions s"
  "store (unsubscribeOnServer c s) = store s"
  "subscriptions (removeCollectionListeners c s) = subscriptions s"
  "store (removeCollectionListeners c s) = store s"
  by (simp_all add: setupCollectionListeners_def subscribeOnServer_def unsubscribeOnServer_def
      removeCollectionListeners_def split: option.splits)

lemma subscribe_fields:
  "subscriptions (subscribe c cid cb s) =
     (case js_get (subscriptions s) c of None \<Rightarrow> js_set (subscriptions s) c (length (store s))
      | Some a \<Rightarrow> subscriptions s)"
  "store (subscribe c cid cb s) =
     (case js_get (subscriptions s) c of
        None \<Rightarrow> store s @ [\<lparr>collection = c, callbacks = [Some (cid, cb)]\<rparr>]
      | Some a \<Rightarrow> (store s)[a := (store s ! a)\<lparr>callbacks := js_set (callbacks (store s ! a)) cid cb\<rparr>])"
  by (simp_all add: subscribe_def Let_def split: option.splits)

lemma unsubscribe_None: "js_get (subscriptions s) c = None \<Longrightarrow> unsubscribe c cid s = s"
  by (simp add: unsubscribe_def)

lemma unsubscribe_fields:
  assumes "js_get (subscriptions s) c = Some a" "a < length (store s)"
  shows "subscriptions (unsubscribe c cid s) =
      (if js_size (js_delete (callbacks (store s ! a)) cid) = 0
       then js_delete (subscriptions s) c else subscriptions s)"
    "store (unsubscribe c cid s) =
       (store s)[a := (store s ! a)\<lparr>callbacks := js_delete (callbacks (store s ! a)) cid\<rparr>]"
  using assms by (auto simp add: unsubscribe_def Let_def)

lemma entries_delete_subset:
  "distinct (js_keys m) \<Longrightarrow> (k', v) \<in> set (js_entries (js_delete m k)) \<longleftrightarrow> (k', v) \<in> set (js_entries m) \<and> k' \<noteq> k"
  by (auto simp: js_entries_delete)

lemma registry_ok_new: "registry_ok new_RealtimeModule"
  by (simp add: registry_ok_def new_RealtimeModule_def)

lemma registry_ok_subscribe:
  assumes "registry_ok s"
  shows "registry_ok (subscribe c cid cb s)"
proof (cases "js_get (subscriptions s) c")
  case None
  then have nk: "c \<notin> set (js_keys (subscriptions s))" by (simp add: js_get_None_iff)
  have bound: "\<forall>(c', a) \<in> set (js_entries (subscriptions s)). a < length (store s)"
    using assms by (auto simp: registry_ok_def)
  then have "length (store s) \<notin> snd ` set (js_entries (subscriptions s))" by force
  with assms None nk bound show ?thesis
    by (auto simp: registry_ok_def subscribe_fields js_keys_set js_entries_set_new nth_append)
next
  case (Some a)
  note ok = registry_okD[OF assms Some]
  have inj: "\<And>c' a'. (c', a') \<in> set (js_entries (subscriptions s)) \<Longrightarrow> a' = a \<Longrightarrow> c' = c"
    using assms Some registry_ok_inj entries_js_get by (metis registry_ok_def)
  show ?thesis using assms Some ok
    by (auto simp: registry_ok_def subscribe_fields nth_list_update js_size_set_pos distinct_js_keys_set)
qed

lemma registry_ok_unsubscribe:
  assumes "registry_ok s"
  shows "registry_ok (unsubscribe c cid s)"
proof (cases "js_get (subscriptions s) c")
  case None
  then show ?thesis using assms by (simp add: unsubscribe_None)
next
  case (Some a)
  note ok = registry_okD[OF assms Some]
  have dk: "distinct (js_keys (subscriptions s))" and ds: "distinct (map snd (js_entries (subscriptions s)))"
    using assms by (auto simp: registry_ok_def)
  have inj: "\<And>c' a'. (c', a') \<in> set (js_entries (subscriptions s)) \<Longrightarrow> a' = a \<Longrightarrow> c' = c"
    using assms Some registry_ok_inj entries_js_get dk by metis
  show ?thesis
  proof (cases "js_size (js_delete (callbacks (store s ! a)) cid) = 0")
    case True
    have "distinct (map snd (js_entries (js_delete (subscriptions s) c)))"
      using ds dk by (simp add: js_entries_delete distinct_map_filter)
    with True assms Some ok dk inj show ?thesis
      by (auto simp: registry_ok_def unsubscribe_fields distinct_js_keys_delete entries_delete_subset nth_list_update)
  next
    case False
    with assms Some ok dk inj show ?thesis
      by (auto simp: registry_ok_def unsubscribe_fields distinct_js_keys_delete nth_list_update)
  qed
qed

lemma resubscribeAll_fields [simp]:
  "subscriptions (resubscribeAll s) = subscriptions s"
  "store (resubscribeAll s) = store s"
proof -
  have "\<And>s. subscriptions (fold (\<lambda>c s'. setupCollectionListeners c (subscribeOnServer c s')) cs s) = subscriptions s
      \<and> store (fold (\<lambda>c s'. setupCollectionListeners c (subscribeOnServer c s')) cs s) = store s" for cs
    by (induction cs) simp_all
  then show "subscriptions (resubscribeAll s) = subscriptions s" "store (resubscribeAll s) = store s"
    by (simp_all add: resubscribeAll_def)
qed

lemma other_fields [simp]:
  "subscriptions (subscribeToExecution i cb s) = subscriptions s"
  "store (subscribeToExecution i cb s) = store s"
  "subscriptions (unsubscribeFromExecution i cb s) = subscriptions s"
  "store (unsubscribeFromExecution i cb s) = store s"
  "subscriptions (onConnectionChange cb s) = subscriptions s"
  "store (onConnectionChange cb s) = store s"
  "subscriptions (set_connected b s) = subscriptions s"
  "store (set_connected b s) = store s"
  "subscriptions (case connect tok s of Inl e \<Rightarrow> s | Inr s' \<Rightarrow> s') = subscriptions s"
  "store (case connect tok s of Inl e \<Rightarrow> s | Inr s' \<Rightarrow> s') = store s"
  "subscriptions (disconnect s) = js_clear (subscriptions s)"
  "store (disconnect s) = store s"
  by (simp_all add: subscribeToExecution_def unsubscribeFromExecution_def onConnectionChange_def
      set_connected_def connect_def disconnect_def Let_def split: option.splits)

lemma registry_ok_cong:
  "subscriptions s' = subscriptions s \<Longrightarrow> store s' = store s \<Longrightarrow> registry_ok s' = registry_ok s"
  by (simp add: registry_ok_def)

lemma js_keys_clear [simp]: "js_keys (js_clear m) = []"
  by (simp add: js_keys_def)

lemma registry_ok_perform: "registry_ok s \<Longrightarrow> registry_ok (perform x s)"
proof (cases x)
  case Disconnect
  then show ?thesis by (simp add: registry_ok_def)
qed (auto simp: registry_ok_subscribe registry_ok_unsubscribe intro: registry_ok_cong [THEN iffD2])

lemma registry_ok_perform_all: "registry_ok s \<Longrightarrow> registry_ok (perform_all cs s)"
  unfolding perform_all_def by (induction cs arbitrary: s) (simp_all add: registry_ok_perform)

lemma registered_cong:
  "subscriptions s' = subscriptions s \<Longrightarrow> store s' = store s \<Longrightarrow> registered c cid s' = registered c cid s"
  by (simp add: registered_def cong: option.case_cong)

lemma not_registered_unsubscribe:
  assumes "registry_ok s"
  shows "\<not> registered c cid (unsubscribe c cid s)"
proof (cases "js_get (subscriptions s) c")
  case None
  then show ?thesis by (simp add: unsubscribe_None registered_def)
next
  case (Some a)
  note ok = registry_okD[OF assms Some]
  have dk: "distinct (js_keys (subscriptions s))" using assms by (simp add: registry_ok_def)
  show ?thesis using Some ok dk
    by (simp add: registered_def unsubscribe_fields js_get_delete_same)
qed

lemma not_registered_subscribe:
  assumes "registry_ok s" "\<not> registered c cid s" "(c', cid') \<noteq> (c, cid)"
  shows "\<not> registered c cid (subscribe c' cid' cb s)"
proof (cases "js_get (subscriptions s) c'")
  case None
  then have nk: "c' \<notin> set (js_keys (subscriptions s))" by (simp add: js_get_None_iff)
  show ?thesis
  proof (cases "c' = c")
    case True
    with None assms(3) show ?thesis
      by (simp add: registered_def subscribe_fields js_get_set)
  next
    case False
    show ?thesis
    proof (cases "js_get (subscriptions s) c")
      case None' : None
      with None False show ?thesis by (simp add: registered_def subscribe_fields js_get_set)
    next
      case (Some a)
      with None False assms registry_okD(1)[OF assms(1) Some] show ?thesis
        by (simp add: registered_def subscribe_fields js_get_set nth_append)
    qed
  qed
next
  case (Some a')
  note ok' = registry_okD[OF assms(1) Some]
  show ?thesis
  proof (cases "js_get (subscriptions s) c")
    case None
    with Some show ?thesis by (simp add: registered_def subscribe_fields)
  next
    case Some2: (Some a)
    have "a' = a \<Longrightarrow> c' = c" using registry_ok_inj[OF assms(1) Some2] Some by auto
    with Some Some2 assms ok' registry_okD[OF assms(1) Some2] show ?thesis
      by (auto simp: registered_def subscribe_fields nth_list_update js_get_set)
  qed
qed

lemma not_registered_unsubscribe_other:
  assumes "registry_ok s" "\<not> registered c cid s"
  shows "\<not> registered c cid (unsubscribe c' cid' s)"
proof (cases "js_get (subscriptions s) c'")
  case None
  with assms show ?thesis by (simp add: unsubscribe_None)
next
  case (Some a')
  note ok' = registry_okD[OF assms(1) Some]
  show ?thesis
  proof (cases "js_get (subscriptions s) c")
    case None
    with Some ok' show ?thesis by (simp add: registered_def unsubscribe_fields js_get_delete_None)
  next
    case Some2: (Some a)
    have inj: "a' = a \<Longrightarrow> c' = c" using registry_ok_inj[OF assms(1) Some2] Some by auto
    have g: "js_get (js_delete (subscriptions s) c') c = None \<or> js_get (js_delete (subscriptions s) c') c = Some a"
      using Some2 by (cases "c' = c") (simp_all add: js_get_delete_other js_get_delete_same assms(1)[unfolded registry_ok_def])
    from Some Some2 assms ok' registry_okD[OF assms(1) Some2] inj g show ?thesis
      by (auto simp: registered_def unsubscribe_fields nth_list_update js_get_delete_None split: option.splits)
  qed
qed

lemma not_registered_perform:
  assumes "registry_ok s" "\<not> registered c cid s" "\<not> subscribes_as c cid x"
  shows "\<not> registered c cid (perform x s)"
proof (cases x)
  case (Subscribe c' cid' cb)
  with assms show ?thesis using not_registered_subscribe[OF assms(1,2), of c' cid' cb] by auto
next
  case (Unsubscribe c' cid')
  with assms show ?thesis using not_registered_unsubscribe_other by simp
next
  case Disconnect
  then show ?thesis by (simp add: registered_def)
qed (use assms in \<open>auto dest: registered_cong [THEN iffD1, rotated 2]\<close>)

lemma not_registered_perform_all:
  assumes "registry_ok s" "\<not> registered c cid s" "\<forall>x \<in> set cs. \<not> subscribes_as c cid x"
  shows "\<not> registered c cid (perform_all cs s)"
  using assms unfolding perform_all_def
  by (induction cs arbitrary: s) (simp_all add: registry_ok_perform not_registered_perform)

lemma unsubscribe_noop:
  assumes "registry_ok s" "\<not> registered c cid s"
  shows "unsubscribe c cid s = s"
proof (cases "js_get (subscriptions s) c")
  case None
  then show ?thesis by (simp add: unsubscribe_None)
next
  case (Some a)
  note ok = registry_okD[OF assms(1) Some]
  from assms(2) Some have "js_get (callbacks (store s ! a)) cid = None" by (simp add: registered_def)
  then have "js_delete (callbacks (store s ! a)) cid = callbacks (store s ! a)" by (rule js_delete_absent)
  with Some ok show ?thesis by (simp add: unsubscribe_def Let_def)
qed

lemma registry_ok_two_callbacks: "registry_ok two_callbacks"
  unfolding two_callbacks_def one_callback_def
  by (intro registry_ok_subscribe) (simp add: registry_ok_def realtime_defs)

text \<open>
  C10. In a state that satisfies the invariant of the registry, in which the collection
  has a record, the first invocation of the closure for callback id \<open>cid\<close> removes the
  entry of that id and no other. After it, let others make any calls on the module
  (subscribe and unsubscribe on this and other collections, connect, disconnect, replay),
  none of which is a \<^verbatim>\<open>subscribe\<close> to this collection that generated the same callback id
  again: a further invocation of the closure then returns the state it was given, so it
  removes no callback, sends nothing and changes no record. Callback ids come from the
  clock and a random number, and the model takes them to be generated once.
\<close>

theorem C10_unsubscribe_twice:
  assumes "registry_ok s"
    and "js_get (subscriptions s) c = Some a"
    and "\<forall>x \<in> set others. \<not> subscribes_as c cid x"
  shows "js_entries (callbacks (store (unsubscribe c cid s) ! a)) =
           filter (\<lambda>e. fst e \<noteq> cid) (js_entries (callbacks (store s ! a))) \<and>
         unsubscribe c cid (perform_all others (unsubscribe c cid s)) =
           perform_all others (unsubscribe c cid s)"
proof -
  note ok = registry_okD [OF assms(1,2)]
  have 1: "registry_ok (unsubscribe c cid s)"
    using assms(1) by (rule registry_ok_unsubscribe)
  have 2: "\<not> registered c cid (unsubscribe c cid s)"
    using assms(1) by (rule not_registered_unsubscribe)
  have "unsubscribe c cid (perform_all others (unsubscribe c cid s)) =
          perform_all others (unsubscribe c cid s)"
    using unsubscribe_noop [OF registry_ok_perform_all [OF 1]
        not_registered_perform_all [OF 1 2 assms(3)]] .
  moreover have "js_entries (callbacks (store (unsubscribe c cid s) ! a)) =
      filter (\<lambda>e. fst e \<noteq> cid) (js_entries (callbacks (store s ! a)))"
    using assms(2) ok by (simp add: unsubscribe_fields js_entries_delete)
  ultimately show ?thesis by simp
qed

theorem C10_witness:
  "registry_ok two_callbacks \<and>
   js_get (subscriptions two_callbacks) ''products'' = Some 0 \<and>
   js_entries (callbacks (store (unsubscribe ''products'' ''id1'' two_callbacks) ! 0)) = [(''id2'', 8)] \<and>
   unsubscribe ''products'' ''id1''
     (perform_all [Unsubscribe ''products'' ''id2'', Subscribe ''products'' ''id3'' 9,
                   Unsubscribe ''products'' ''id1'']
        (unsubscribe ''products'' ''id1'' two_callbacks)) =
   perform_all [Unsubscribe ''products'' ''id2'', Subscribe ''products'' ''id3'' 9,
                Unsubscribe ''products'' ''id1'']
     (unsubscribe ''products'' ''id1'' two_callbacks)"
proof -
  have 1: "js_get (subscriptions two_callbacks) ''products'' = Some 0"
    by (simp add: realtime_defs)
  have 2: "\<forall>x \<in> set [Unsubscribe ''products'' ''id2'', Subscribe ''products'' ''id3'' 9,
                   Unsubscribe ''products'' ''id1'']. \<not> subscribes_as ''products'' ''id1'' x"
    by simp
  have 3: "js_entries (callbacks (store two_callbacks ! 0)) = [(''id1'', 7), (''id2'', 8)]"
    by (simp add: realtime_defs)
  from C10_unsubscribe_twice [OF registry_ok_two_callbacks 1 2] registry_ok_two_callbacks 1
  show ?thesis by (simp add: 3)
qed


subsection \<open>The listener of the transport's disconnect\<close>

text \<open>
  The condition on the socket under which the transport's disconnect is examined above
  holds of the connected module and is kept by every call on the module.
\<close>

lemma eventName_not_disconnect: "eventName c e \<noteq> ''disconnect''"
proof
  assume "eventName c e = ''disconnect''"
  then have "last (eventName c e) = last ''disconnect''" by simp
  then show False by (cases e) (simp_all add: eventName_def)
qed

lemma listeners_of_on:
  "listeners_of ev (socket_on n l sk) = listeners_of ev sk @ (if n = ev then [l] else [])"
  by (simp add: listeners_of_def socket_on_def)

lemma listeners_of_off:
  "listeners_of ev (socket_off n sk) = (if n = ev then [] else listeners_of ev sk)"
  by (auto simp add: listeners_of_def socket_off_def filter_empty_conv intro!: arg_cong[where f="map snd"] filter_cong)

lemma ok_setup: "disconnect_listener_ok s \<Longrightarrow> disconnect_listener_ok (setupCollectionListeners c s)"
  by (auto simp: disconnect_listener_ok_def setupCollectionListeners_def events_def listeners_of_on
      eventName_not_disconnect split: option.splits)

lemma ok_remove: "disconnect_listener_ok s \<Longrightarrow> disconnect_listener_ok (removeCollectionListeners c s)"
  by (auto simp: disconnect_listener_ok_def removeCollectionListeners_def events_def listeners_of_off
      eventName_not_disconnect split: option.splits)

lemma ok_socket_cong: "socket s' = socket s \<Longrightarrow> disconnect_listener_ok s' = disconnect_listener_ok s"
  by (simp add: disconnect_listener_ok_def)

lemma socket_emit [simp]:
  "socket (subscribeOnServer c s) = socket s" "socket (unsubscribeOnServer c s) = socket s"
  by (simp_all add: subscribeOnServer_def unsubscribeOnServer_def)

lemma ok_subscribe: "disconnect_listener_ok s \<Longrightarrow> disconnect_listener_ok (subscribe c cid cb s)"
proof (cases "js_get (subscriptions s) c")
  case None
  assume ok: "disconnect_listener_ok s"
  let ?s1 = "s\<lparr>store := store s @ [\<lparr>collection = c, callbacks = []\<rparr>],
                      subscriptions := js_set (subscriptions s) c (length (store s))\<rparr>"
  have "disconnect_listener_ok (subscribeOnServer c ?s1)"
    using ok by (simp add: disconnect_listener_ok_def)
  then have "disconnect_listener_ok (setupCollectionListeners c (subscribeOnServer c ?s1))"
    by (rule ok_setup)
  then show ?thesis using None by (simp add: subscribe_def Let_def disconnect_listener_ok_def)
next
  case (Some a)
  assume "disconnect_listener_ok s"
  then show ?thesis using Some by (simp add: subscribe_def disconnect_listener_ok_def)
qed

lemma ok_unsubscribe: "disconnect_listener_ok s \<Longrightarrow> disconnect_listener_ok (unsubscribe c cid s)"
proof (cases "js_get (subscriptions s) c")
  case None
  assume "disconnect_listener_ok s"
  then show ?thesis using None by (simp add: unsubscribe_None)
next
  case (Some a)
  assume ok: "disconnect_listener_ok s"
  let ?s1 = "s\<lparr>store := (store s)[a := (store s ! a)\<lparr>callbacks := js_delete (callbacks (store s ! a)) cid\<rparr>]\<rparr>"
  have "disconnect_listener_ok (unsubscribeOnServer c ?s1)"
    using ok by (simp add: disconnect_listener_ok_def)
  then have "disconnect_listener_ok (removeCollectionListeners c (unsubscribeOnServer c ?s1))"
    by (rule ok_remove)
  then show ?thesis using Some ok
    by (simp add: unsubscribe_def Let_def disconnect_listener_ok_def)
qed

lemma ok_resubscribeAll: "disconnect_listener_ok s \<Longrightarrow> disconnect_listener_ok (resubscribeAll s)"
proof -
  have "\<And>s. disconnect_listener_ok s \<Longrightarrow>
     disconnect_listener_ok (fold (\<lambda>c s'. setupCollectionListeners c (subscribeOnServer c s')) cs s)" for cs
  proof (induction cs)
    case Nil
    then show ?case by simp
  next
    case (Cons c cs)
    have "disconnect_listener_ok (subscribeOnServer c s)"
      using Cons.prems by (simp add: disconnect_listener_ok_def)
    then have "disconnect_listener_ok (setupCollectionListeners c (subscribeOnServer c s))"
      by (rule ok_setup)
    then show ?case using Cons.IH by simp
  qed
  then show "disconnect_listener_ok s \<Longrightarrow> disconnect_listener_ok (resubscribeAll s)"
    by (simp add: resubscribeAll_def)
qed

lemma ok_perform: "disconnect_listener_ok s \<Longrightarrow> disconnect_listener_ok (perform x s)"
proof (cases x)
  case (Connect tok)
  assume "disconnect_listener_ok s"
  then show ?thesis using Connect
    by (simp add: connect_def disconnect_listener_ok_def listeners_of_def)
next
  case (TransportConnected b)
  assume "disconnect_listener_ok s"
  then show ?thesis using TransportConnected
    by (simp add: set_connected_def disconnect_listener_ok_def listeners_of_def split: option.splits)
next
  case (Subscribe c cid cb)
  assume "disconnect_listener_ok s"
  then show ?thesis using Subscribe by (simp add: ok_subscribe)
next
  case (Unsubscribe c cid)
  assume "disconnect_listener_ok s"
  then show ?thesis using Unsubscribe by (simp add: ok_unsubscribe)
next
  case Replay
  assume "disconnect_listener_ok s"
  then show ?thesis using Replay by (simp add: ok_resubscribeAll)
qed (simp_all add: disconnect_listener_ok_def
      subscribeToExecution_def unsubscribeFromExecution_def onConnectionChange_def disconnect_def Let_def
      split: option.splits)

lemma ok_perform_all: "disconnect_listener_ok s \<Longrightarrow> disconnect_listener_ok (perform_all cs s)"
  unfolding perform_all_def by (induction cs arbitrary: s) (simp_all add: ok_perform)

lemma ok_new: "disconnect_listener_ok new_RealtimeModule"
  by (simp add: disconnect_listener_ok_def new_RealtimeModule_def)

lemma ok_connected_module: "disconnect_listener_ok connected_module"
  by (simp add: disconnect_listener_ok_def realtime_defs)

subsection \<open>Dispatch of an inbound event\<close>

lemma turn_stuck:
  "length (callbacks (store (turn env a p s i) ! a)) \<le> i \<Longrightarrow>
   turn env a p s (i + k) = turn env a p s i"
  by (induction k) (simp_all add: Let_def)

lemma forEach_turn:
  assumes "length (callbacks (store (turn env a p s n) ! a)) \<le> n"
  shows "d = n - i \<Longrightarrow> i \<le> n \<Longrightarrow>
     forEach_callbacks env a p i (turn env a p s i) = Some (turn env a p s n)"
proof (induction d arbitrary: i)
  case 0
  then have "i = n" by simp
  with assms show ?case by (subst forEach_callbacks.simps) simp
next
  case (Suc d)
  then have i: "i < n" and d: "d = n - Suc i" by simp_all
  show ?case
  proof (cases "i < length (callbacks (store (turn env a p s i) ! a))")
    case True
    have "forEach_callbacks env a p i (turn env a p s i) =
          forEach_callbacks env a p (Suc i) (turn env a p s (Suc i))"
      using True by (subst forEach_callbacks.simps) (simp add: Let_def split: option.splits)
    also have "\<dots> = Some (turn env a p s n)" using Suc.IH[of "Suc i"] d i by simp
    finally show ?thesis .
  next
    case False
    then have "turn env a p s (i + (n - i)) = turn env a p s i"
      by (intro turn_stuck) simp
    then have "turn env a p s n = turn env a p s i" using i by simp
    with False show ?thesis by (subst forEach_callbacks.simps) simp
  qed
qed

lemma call_callback_invoked:
  "keeps_log env \<Longrightarrow> invoked (call_callback env cb p s) = invoked s @ [(cb, p)]"
  by (cases "env cb p (s\<lparr>invoked := invoked s @ [(cb, p)]\<rparr>)")
     (use keeps_log_def[of env] in \<open>auto simp add: call_callback_def dest!: spec[of _ cb]
        spec[of _ p] spec[of _ "s\<lparr>invoked := invoked s @ [(cb, p)]\<rparr>"]\<close>)

lemma invoked_turn_Suc:
  assumes "keeps_log env"
  shows "invoked (turn env a p s (Suc i)) =
     invoked (turn env a p s i) @
       (case found env a p s i of None \<Rightarrow> [] | Some e \<Rightarrow> [(snd e, p)])"
  using assms by (simp add: found_def Let_def call_callback_invoked split: option.splits)

lemma invoked_turn:
  assumes "keeps_log env"
  shows "invoked (turn env a p s n) =
     invoked s @ map (\<lambda>e. (snd e, p)) (List.map_filter (found env a p s) [0..<n])"
proof (induction n)
  case 0
  then show ?case by (simp add: List.map_filter_def)
next
  case (Suc n)
  show ?case
    unfolding invoked_turn_Suc[OF assms] Suc.IH
    by (simp add: List.map_filter_def split: option.splits)
qed

lemma map_filter_eqI:
  "(\<And>x. x \<in> set xs \<Longrightarrow> f x = g x) \<Longrightarrow> List.map_filter f xs = List.map_filter g xs"
  by (induction xs) (simp_all add: List.map_filter_def)

lemma map_filter_nth: "List.map_filter (\<lambda>i. m ! i) [0..<length m] = js_entries m"
proof -
  have "List.map_filter (\<lambda>i. m ! i) [0..<length m] = List.map_filter id (map (\<lambda>i. m ! i) [0..<length m])"
    by (simp add: List.map_filter_def filter_map comp_def)
  then show ?thesis by (simp add: map_nth js_entries_def)
qed

lemma thinned_refl [simp]: "thinned m m"
  by (simp add: thinned_def list_all2_refl)

lemma thinned_trans: "thinned m'' m' \<Longrightarrow> thinned m' m \<Longrightarrow> thinned m'' m"
  unfolding thinned_def list_all2_conv_all_nth by metis

lemma thinned_length: "thinned m' m \<Longrightarrow> length m' = length m"
  by (simp add: thinned_def list_all2_lengthD)

lemma thinned_nth: "thinned m' m \<Longrightarrow> j < length m \<Longrightarrow> m' ! j = None \<or> m' ! j = m ! j"
  by (auto simp: thinned_def list_all2_conv_all_nth)

lemma thinned_turns:
  assumes "\<And>i. i < n \<Longrightarrow>
     thinned (callbacks (store (turn env a p s (Suc i)) ! a)) (callbacks (store (turn env a p s i) ! a))"
  shows "i \<le> n \<Longrightarrow> thinned (callbacks (store (turn env a p s i) ! a)) (callbacks (store s ! a))"
proof (induction i)
  case 0
  then show ?case by simp
next
  case (Suc i)
  then have "thinned (callbacks (store (turn env a p s i) ! a)) (callbacks (store s ! a))" by simp
  moreover have "thinned (callbacks (store (turn env a p s (Suc i)) ! a))
      (callbacks (store (turn env a p s i) ! a))"
    using Suc.prems by (intro assms) simp
  ultimately show ?case by (rule thinned_trans[rotated])
qed

text \<open>What the calls into the module leave alone and what they do to a callback Map.\<close>

lemma js_delete_thinned: "thinned (js_delete m k) m"
  unfolding thinned_def
  by (induction m k rule: js_delete.induct) (auto intro: list_all2_refl)

lemma invoked_resubscribeAll [simp]: "invoked (resubscribeAll s) = invoked s"
proof -
  have "invoked (fold (\<lambda>c s'. setupCollectionListeners c (subscribeOnServer c s')) cs s) = invoked s"
    for cs
    by (induction cs arbitrary: s)
       (simp_all add: setupCollectionListeners_def subscribeOnServer_def split: option.splits)
  then show ?thesis by (simp add: resubscribeAll_def)
qed

lemma invoked_perform [simp]: "invoked (perform x s) = invoked s"
  by (cases x)
     (auto simp: subscribe_def unsubscribe_def Let_def subscribeOnServer_def
        unsubscribeOnServer_def setupCollectionListeners_def removeCollectionListeners_def
        subscribeToExecution_def unsubscribeFromExecution_def onConnectionChange_def
        connect_def disconnect_def set_connected_def
        split: option.splits sum.splits)

lemma invoked_perform_all [simp]: "invoked (perform_all cs s) = invoked s"
  unfolding perform_all_def by (induction cs arbitrary: s) simp_all

lemma keeps_log_calls: "keeps_log (\<lambda>cb p s. (perform_all (calls cb p) s, raises cb p))"
  by (simp add: keeps_log_def)

lemma store_unsubscribe:
  "store (unsubscribe c cid s) =
     (case js_get (subscriptions s) c of None \<Rightarrow> store s
      | Some a \<Rightarrow> (store s)[a := (store s ! a)\<lparr>callbacks := js_delete (callbacks (store s ! a)) cid\<rparr>])"
  by (simp add: unsubscribe_def Let_def split: option.splits)

lemma unsubscribe_thinned:
  "thinned (callbacks (store (unsubscribe c cid s) ! a)) (callbacks (store s ! a))"
proof (cases "js_get (subscriptions s) c")
  case None
  then show ?thesis by (simp add: store_unsubscribe)
next
  case (Some a')
  show ?thesis
  proof (cases "a' < length (store s)")
    case True
    with Some show ?thesis
      by (simp add: store_unsubscribe nth_list_update js_delete_thinned)
  next
    case False
    with Some show ?thesis by (simp add: store_unsubscribe list_update_beyond)
  qed
qed

lemma keeps_log_examples:
  "keeps_log always_raises" "keeps_log removes_sibling" "keeps_log adds_callback"
  "keeps_log leaves_collection"
  using invoked_perform[of "Unsubscribe c cid" for c cid]
    invoked_perform[of "Subscribe c cid cb" for c cid cb]
  by (simp_all add: keeps_log_def always_raises_def removes_sibling_def adds_callback_def
      leaves_collection_def)

text \<open>
  C4. The claim: dispatch invokes exactly the callbacks registered when it begins, each
  once; a callback that raises does not stop the others; removal of callbacks during
  dispatch cannot make a callback of that snapshot be skipped. The code takes no snapshot:
  \<^verbatim>\<open>forEach\<close> walks the Map itself. With two callbacks registered, of which the first
  invokes the unsubscribe closure of the second, the event reaches the first callback only;
  and when the first subscribes a third callback instead, the event reaches all three.
\<close>

theorem C4_counterexample:
  "js_entries (callbacks (store two_callbacks ! 0)) = [(''id1'', 7), (''id2'', 8)] \<and>
   map_option invoked
     (handleCollectionEvent removes_sibling ''products'' product_created two_callbacks) =
     Some [(7, product_created)] \<and>
   map_option invoked
     (handleCollectionEvent adds_callback ''products'' product_created two_callbacks) =
     Some [(7, product_created), (8, product_created), (9, product_created)]"
  by (simp add: realtime_defs adds_callback_def forEach_callbacks.simps)

text \<open>
  C4, amended. For an inbound event of a collection that has a record, the dispatch walks
  the callback Map of that record as it is at each step. Whatever the callbacks do
  (raise, subscribe, unsubscribe, disconnect), if the walk comes to a position with
  nothing left at or after it, the dispatch ends there and has invoked, position by
  position and in that order, each callback whose entry it found in the Map at its turn,
  once, and no other: a callback removed before its turn is not invoked, one removed after
  its turn or not at all is, a callback that raises does not keep the later ones from their
  turn, and a callback added during the dispatch has its turn too. In particular, if the
  Map of the record is at every turn as it was when the dispatch began, the dispatch ends
  and has invoked exactly the callbacks registered when it began, each once, in the order
  of registration; and if the Map only loses entries from turn to turn, the dispatch ends
  and has invoked, in the order of registration and each once, exactly those of the
  callbacks registered when it began whose entry was still there at their turn.
\<close>

theorem C4_dispatch:
  assumes "js_get (subscriptions s) c = Some a" and "keeps_log env"
  shows
    "(\<forall>n. length (callbacks (store (turn env a p s n) ! a)) \<le> n \<longrightarrow>
        handleCollectionEvent env c p s = Some (turn env a p s n) \<and>
        invoked (turn env a p s n) =
          invoked s @ map (\<lambda>e. (snd e, p)) (List.map_filter (found env a p s) [0..<n])) \<and>
     ((\<forall>i \<le> length (callbacks (store s ! a)).
         callbacks (store (turn env a p s i) ! a) = callbacks (store s ! a)) \<longrightarrow>
      (\<exists>s'. handleCollectionEvent env c p s = Some s' \<and>
         invoked s' = invoked s @ map (\<lambda>e. (snd e, p)) (js_entries (callbacks (store s ! a))))) \<and>
     ((\<forall>i < length (callbacks (store s ! a)).
         thinned (callbacks (store (turn env a p s (Suc i)) ! a))
           (callbacks (store (turn env a p s i) ! a))) \<longrightarrow>
      (\<exists>s'. handleCollectionEvent env c p s = Some s' \<and>
         invoked s' =
           invoked s @
             map (\<lambda>e. (snd e, p))
               (List.map_filter
                  (\<lambda>j. if found env a p s j = None then None else callbacks (store s ! a) ! j)
                  [0..<length (callbacks (store s ! a))])))"
proof -
  let ?m = "\<lambda>i. callbacks (store (turn env a p s i) ! a)"
  let ?init = "callbacks (store s ! a)"
  have general: "handleCollectionEvent env c p s = Some (turn env a p s n) \<and>
      invoked (turn env a p s n) =
        invoked s @ map (\<lambda>e. (snd e, p)) (List.map_filter (found env a p s) [0..<n])"
    if "length (?m n) \<le> n" for n
    using forEach_turn[OF that refl, of 0] invoked_turn[OF assms(2), of a p s n] assms(1)
    by (simp add: handleCollectionEvent_def)
  have unchanged: "\<exists>s'. handleCollectionEvent env c p s = Some s' \<and>
      invoked s' = invoked s @ map (\<lambda>e. (snd e, p)) (js_entries ?init)"
    if u: "\<forall>i \<le> length ?init. ?m i = ?init"
  proof -
    have "length (?m (length ?init)) \<le> length ?init" using u by simp
    from general[OF this] have
      h: "handleCollectionEvent env c p s = Some (turn env a p s (length ?init))" and
      i: "invoked (turn env a p s (length ?init)) =
        invoked s @ map (\<lambda>e. (snd e, p)) (List.map_filter (found env a p s) [0..<length ?init])"
      by simp_all
    have "List.map_filter (found env a p s) [0..<length ?init] =
        List.map_filter (\<lambda>i. ?init ! i) [0..<length ?init]"
      using u by (intro map_filter_eqI) (simp add: found_def)
    with h i show ?thesis by (simp add: map_filter_nth)
  qed
  have removal: "\<exists>s'. handleCollectionEvent env c p s = Some s' \<and>
      invoked s' =
        invoked s @
          map (\<lambda>e. (snd e, p))
            (List.map_filter (\<lambda>j. if found env a p s j = None then None else ?init ! j)
               [0..<length ?init])"
    if t: "\<forall>i < length ?init. thinned (?m (Suc i)) (?m i)"
  proof -
    have th: "thinned (?m i) ?init" if "i \<le> length ?init" for i
      using t that by (intro thinned_turns[of "length ?init"]) simp_all
    have "length (?m (length ?init)) \<le> length ?init"
      using th[of "length ?init"] by (simp add: thinned_length)
    from general[OF this] have
      h: "handleCollectionEvent env c p s = Some (turn env a p s (length ?init))" and
      i: "invoked (turn env a p s (length ?init)) =
        invoked s @ map (\<lambda>e. (snd e, p)) (List.map_filter (found env a p s) [0..<length ?init])"
      by simp_all
    have "List.map_filter (found env a p s) [0..<length ?init] =
        List.map_filter (\<lambda>j. if found env a p s j = None then None else ?init ! j) [0..<length ?init]"
    proof (rule map_filter_eqI)
      fix j assume "j \<in> set [0..<length ?init]"
      then have j: "j < length ?init" by simp
      then have "?m j ! j = None \<or> ?m j ! j = ?init ! j"
        using th[of j] by (intro thinned_nth) simp_all
      moreover have "length (?m j) = length ?init" using th[of j] j by (simp add: thinned_length)
      ultimately show "found env a p s j =
          (if found env a p s j = None then None else ?init ! j)"
        using j by (auto simp: found_def)
    qed
    with h i show ?thesis by simp
  qed
  from general unchanged removal show ?thesis by blast
qed

theorem C4_witness:
  "js_get (subscriptions two_callbacks) ''products'' = Some 0 \<and>
   js_get (subscriptions two_collections) ''products'' = Some 0 \<and>
   keeps_log always_raises \<and> keeps_log removes_sibling \<and> keeps_log adds_callback \<and>
   keeps_log leaves_collection \<and>
   js_entries (callbacks (store two_callbacks ! 0)) = [(''id1'', 7), (''id2'', 8)] \<and>
   js_entries (callbacks (store two_collections ! 0)) = [(''id1'', 7), (''id2'', 8)] \<and>
   map (found always_raises 0 product_created two_callbacks) [0, 1] =
     [Some (''id1'', 7), Some (''id2'', 8)] \<and>
   map_option (\<lambda>s'. (invoked s', caught s'))
     (handleCollectionEvent always_raises ''products'' product_created two_callbacks) =
     Some ([(7, product_created), (8, product_created)], 2) \<and>
   map (found leaves_collection 0 product_created two_collections) [0, 1] =
     [Some (''id1'', 7), Some (''id2'', 8)] \<and>
   map_option (\<lambda>s'. (invoked s', js_keys (subscriptions s')))
     (handleCollectionEvent leaves_collection ''products'' product_created two_collections) =
     Some ([(7, product_created), (8, product_created)], [''products'']) \<and>
   map (found removes_sibling 0 product_created two_callbacks) [0, 1] =
     [Some (''id1'', 7), None] \<and>
   map_option invoked
     (handleCollectionEvent removes_sibling ''products'' product_created two_callbacks) =
     Some [(7, product_created)] \<and>
   map (found adds_callback 0 product_created two_callbacks) [0, 1, 2, 3] =
     [Some (''id1'', 7), Some (''id2'', 8), Some (''id4'', 9), None] \<and>
   map_option invoked
     (handleCollectionEvent adds_callback ''products'' product_created two_callbacks) =
     Some [(7, product_created), (8, product_created), (9, product_created)]"
proof -
  note defs = realtime_defs two_collections_def adds_callback_def leaves_collection_def
    found_def thinned_def keeps_log_def
  have reg: "js_get (subscriptions two_callbacks) ''products'' = Some 0"
    "js_get (subscriptions two_collections) ''products'' = Some 0"
    by (simp_all add: defs)
  have m0: "callbacks (store two_callbacks ! 0) = [Some (''id1'', 7), Some (''id2'', 8)]"
    "callbacks (store two_collections ! 0) = [Some (''id1'', 7), Some (''id2'', 8)]"
    "invoked two_callbacks = []" "invoked two_collections = []"
    by (simp_all add: defs)
  have t1: "turn always_raises 0 product_created two_callbacks (Suc 0) =
      two_callbacks\<lparr>invoked := [(7, product_created)], caught := 1\<rparr>"
    "turn always_raises 0 product_created two_callbacks (Suc (Suc 0)) =
      two_callbacks\<lparr>invoked := [(7, product_created), (8, product_created)], caught := 2\<rparr>"
    by (simp_all add: defs)
  have u1: "\<forall>i \<le> length (callbacks (store two_callbacks ! 0)).
      callbacks (store (turn always_raises 0 product_created two_callbacks i) ! 0) =
      callbacks (store two_callbacks ! 0)"
    using t1 by (auto simp: m0 le_Suc_eq numeral_2_eq_2)
  have t2: "callbacks (store (turn leaves_collection 0 product_created two_collections (Suc 0)) ! 0) =
      [Some (''id1'', 7), Some (''id2'', 8)]"
    "callbacks (store (turn leaves_collection 0 product_created two_collections (Suc (Suc 0))) ! 0) =
      [Some (''id1'', 7), Some (''id2'', 8)]"
    by (simp_all add: defs)
  have u2: "\<forall>i \<le> length (callbacks (store two_collections ! 0)).
      callbacks (store (turn leaves_collection 0 product_created two_collections i) ! 0) =
      callbacks (store two_collections ! 0)"
    using t2 by (auto simp: m0 le_Suc_eq numeral_2_eq_2)
  have t3: "callbacks (store (turn removes_sibling 0 product_created two_callbacks (Suc 0)) ! 0) =
      [Some (''id1'', 7), None]"
    "callbacks (store (turn removes_sibling 0 product_created two_callbacks (Suc (Suc 0))) ! 0) =
      [Some (''id1'', 7), None]"
    by (simp_all add: defs)
  have u3: "\<forall>i < length (callbacks (store two_callbacks ! 0)).
      thinned (callbacks (store (turn removes_sibling 0 product_created two_callbacks (Suc i)) ! 0))
        (callbacks (store (turn removes_sibling 0 product_created two_callbacks i) ! 0))"
    using t3 by (auto simp: m0 less_Suc_eq numeral_2_eq_2 thinned_def)
  have t4: "callbacks (store (turn adds_callback 0 product_created two_callbacks 3) ! 0) =
      [Some (''id1'', 7), Some (''id2'', 8), Some (''id4'', 9)]"
    by (simp add: defs eval_nat_numeral)
  have u4: "length (callbacks (store (turn adds_callback 0 product_created two_callbacks 3) ! 0)) \<le> 3"
    by (simp add: t4)
  note k = keeps_log_examples
  from C4_dispatch [OF reg(1) k(1), of product_created]
  have r1: "\<exists>s'. handleCollectionEvent always_raises ''products'' product_created two_callbacks = Some s' \<and>
      invoked s' = [(7, product_created), (8, product_created)]"
    using u1 by (simp add: m0 js_entries_def List.map_filter_def)
  from C4_dispatch [OF reg(2) k(4), of product_created]
  have r2: "\<exists>s'. handleCollectionEvent leaves_collection ''products'' product_created two_collections = Some s' \<and>
      invoked s' = [(7, product_created), (8, product_created)]"
    using u2 by (simp add: m0 js_entries_def List.map_filter_def)
  from C4_dispatch [OF reg(1) k(2), of product_created]
  have r3: "\<exists>s'. handleCollectionEvent removes_sibling ''products'' product_created two_callbacks = Some s' \<and>
      invoked s' =
        map (\<lambda>e. (snd e, product_created))
          (List.map_filter
            (\<lambda>j. if found removes_sibling 0 product_created two_callbacks j = None then None
                 else callbacks (store two_callbacks ! 0) ! j)
            [0..<length (callbacks (store two_callbacks ! 0))])"
    using u3 by (simp add: m0(3))
  from C4_dispatch [OF reg(1) k(3), of product_created]
  have r4: "handleCollectionEvent adds_callback ''products'' product_created two_callbacks =
      Some (turn adds_callback 0 product_created two_callbacks 3)"
    using u4 by blast
  show ?thesis
    using r1 r2 r3 r4 reg k
    by (simp add: defs forEach_callbacks.simps eval_nat_numeral)
qed

section \<open>Properties of the HTTP client\<close>

lemma settle_fields [simp]:
  "config (snd (settle r s)) = config s"
  "storage (snd (settle r s)) = storage s"
  "trace (snd (settle r s)) = trace s"
  by (simp_all add: settle_def split: reply.splits)

lemma fetch_fields [simp]:
  "config (snd (fetch og u i s)) = config s"
  "storage (snd (fetch og u i s)) = storage s"
  by (simp_all add: fetch_def Let_def split: list.splits option.splits)

lemma fetch_trace:
  "trace (snd (fetch og u i s)) = trace s @ [Fetch og u i] \<or>
   trace (snd (fetch og u i s)) = trace s @ [Fetch og u i, Cancelled og]"
  by (simp add: fetch_def Let_def split: list.splits option.splits)

lemma fetch_no_signal_trace:
  "init_signal i = None \<Longrightarrow> trace (snd (fetch og u i s)) = trace s @ [Fetch og u i]"
  by (simp add: fetch_def Let_def split: list.splits)

lemma storage_set_fields [simp]:
  "config (storage_set k v s) = config s"
  "trace (storage_set k v s) = trace s"
  by (simp_all add: storage_set_def)

lemma store_tokens_fields [simp]:
  "config (store_tokens t s) = config s"
  by (simp add: store_tokens_def Let_def split: option.splits)

lemma store_tokens_trace:
  "trace (store_tokens t s) = trace s @ (if onTokenRefresh (config s) then [TokenRefreshNotified t] else [])"
  by (simp add: store_tokens_def Let_def split: option.splits)

lemma buildUrl_trace [simp]: "buildUrl p ps (s\<lparr>trace := t\<rparr>) = buildUrl p ps s"
  by (simp add: buildUrl_def)

lemma refresh_init_trace [simp]: "refresh_init (s\<lparr>trace := t\<rparr>) = refresh_init s"
  by (simp add: refresh_init_def)

lemma refresh_init_signal [simp]: "init_signal (refresh_init s) = None"
  by (simp add: refresh_init_def)

lemma refresh_exchange_cases:
  obtains
    (no_token) "\<not> truthy (storage s REFRESH_TOKEN)" "authMode (config s) = Jwt"
      "refresh_exchange s =
         (Inl (BaasixError ''No refresh token available'' 401 (Some ''NO_REFRESH_TOKEN'')),
          s\<lparr>trace := trace s @ [RefreshStarted]\<rparr>)"
  | (failed) e s1 where
      "refresh_exchange s = (Inl e, s1)" "config s1 = config s" "storage s1 = storage s"
      "trace s1 = trace s @ [RefreshStarted,
         Fetch Refresh (buildUrl ''/auth/refresh'' None s) (refresh_init s)]"
  | (succeeded) response s1 where
      "ok response" "body response \<noteq> NoJson" "body response \<noteq> JsonNull"
      "refresh_exchange s =
         (Inr (tokens_of (body response) (clock s1)),
          store_tokens (tokens_of (body response) (clock s1)) s1)"
      "config s1 = config s" "storage s1 = storage s"
      "trace s1 = trace s @ [RefreshStarted,
         Fetch Refresh (buildUrl ''/auth/refresh'' None s) (refresh_init s)]"
proof -
  let ?f = "fetch Refresh (buildUrl ''/auth/refresh'' None s) (refresh_init s)
       (s\<lparr>trace := trace s @ [RefreshStarted]\<rparr>)"
  obtain r s1 where f: "?f = (r, s1)" by (cases ?f)
  have "config (snd ?f) = config s" "storage (snd ?f) = storage s"
    "trace (snd ?f) = trace s @ [RefreshStarted,
       Fetch Refresh (buildUrl ''/auth/refresh'' None s) (refresh_init s)]"
    by (simp_all add: fetch_no_signal_trace)
  then have s1: "config s1 = config s" "storage s1 = storage s"
    "trace s1 = trace s @ [RefreshStarted,
       Fetch Refresh (buildUrl ''/auth/refresh'' None s) (refresh_init s)]"
    by (simp_all add: f)
  show thesis
  proof (cases "\<not> truthy (storage s REFRESH_TOKEN) \<and> authMode (config s) = Jwt")
    case True
    then show thesis by (intro no_token) (simp_all add: refresh_exchange_def Let_def)
  next
    case nt: False
    have u: "refresh_exchange s =
       (case r of
          Inl e \<Rightarrow> (Inl e, s1)
        | Inr response \<Rightarrow>
            if \<not> ok response
            then (Inl (BaasixError ''Token refresh failed'' (status response)
                         (Some ''REFRESH_FAILED'')), s1)
            else
              (case body response of
                 NoJson \<Rightarrow> (Inl (JsError ''SyntaxError'' ''Unexpected end of JSON input''), s1)
               | JsonNull \<Rightarrow>
                   (Inl (JsError ''TypeError'' ''Cannot read properties of null''), s1)
               | parsed \<Rightarrow>
                   (Inr (tokens_of parsed (clock s1)), store_tokens (tokens_of parsed (clock s1)) s1)))"
      by (simp add: refresh_exchange_def Let_def if_not_P[OF nt] f split: sum.splits body.splits)
    show thesis
    proof (cases r)
      case (Inl e)
      with u s1 show thesis by (intro failed[of e s1]) simp_all
    next
      case (Inr response)
      show thesis
      proof (cases "ok response")
        case False
        with u s1 Inr show thesis by (intro failed[of _ s1]) simp_all
      next
        case True
        show thesis
        proof (cases "body response")
          case NoJson
          with u s1 Inr True show thesis by (intro failed[of _ s1]) simp_all
        next
          case JsonNull
          with u s1 Inr True show thesis by (intro failed[of _ s1]) simp_all
        next
          case (TokenData tok rt ei)
          with u s1 Inr True show thesis by (intro succeeded[of response s1]) simp_all
        next
          case (ErrorData em m c)
          with u s1 Inr True show thesis by (intro succeeded[of response s1]) simp_all
        next
          case (Data d)
          with u s1 Inr True show thesis by (intro succeeded[of response s1]) simp_all
        qed
      qed
    qed
  qed
qed

lemma refresh_exchange_config [simp]: "config (snd (refresh_exchange s)) = config s"
  by (cases s rule: refresh_exchange_cases) simp_all

lemma refresh_exchange_trace:
  "\<exists>tr. trace (snd (refresh_exchange s)) = trace s @ RefreshStarted # tr \<and> (\<forall>e \<in> set tr. refresh_effect e)"
  by (cases s rule: refresh_exchange_cases)
     (simp_all add: store_tokens_trace refresh_effect_def)

lemma refresh_exchange_failure_storage:
  assumes "fst (refresh_exchange s) = Inl e"
  shows "storage (snd (refresh_exchange s)) = storage s"
  using assms by (cases s rule: refresh_exchange_cases) simp_all

lemma counts_append [simp]:
  "refreshes (a @ b) = refreshes a + refreshes b"
  "attempts og (a @ b) = attempts og a + attempts og b"
  "auth_errors (a @ b) = auth_errors a + auth_errors b"
  by (simp_all add: refreshes_def attempts_def auth_errors_def)

lemma counts_Cons [simp]:
  "refreshes (e # b) = (if e = RefreshStarted then 1 else 0) + refreshes b"
  "attempts og (e # b) = (if is_fetch og e then 1 else 0) + attempts og b"
  "auth_errors (e # b) = (if e = AuthErrorNotified then 1 else 0) + auth_errors b"
  "refreshes [] = 0" "attempts og [] = 0" "auth_errors [] = 0"
  by (simp_all add: refreshes_def attempts_def auth_errors_def)

lemma is_fetch_simps [simp]:
  "is_fetch og (Fetch og' u i) = (og' = og)"
  "is_fetch og RefreshStarted = False"
  "is_fetch og (Cancelled og') = False"
  "is_fetch og AuthErrorNotified = False"
  "is_fetch og (TokenRefreshNotified t) = False"
  "is_fetch og (AuthStateChanged x) = False"
  by (simp_all add: is_fetch_def)

lemma counts_refresh_effects:
  assumes "\<forall>e \<in> set tr. refresh_effect e"
  shows "refreshes tr = 0" "og \<noteq> Refresh \<Longrightarrow> attempts og tr = 0" "auth_errors tr = 0"
  using assms
  by (induction tr) (auto simp: refresh_effect_def is_fetch_def split: effect.splits)

lemma refreshToken_counts:
  "refreshes (trace (snd (refreshToken s))) = Suc (refreshes (trace s))"
  "og \<noteq> Refresh \<Longrightarrow> attempts og (trace (snd (refreshToken s))) = attempts og (trace s)"
  "auth_errors (trace (snd (refreshToken s))) = auth_errors (trace s)"
  "config (snd (refreshToken s)) = config s"
  using refresh_exchange_trace [of s]
  by (auto simp: refreshToken_def counts_refresh_effects)

lemma fetch_counts:
  "refreshes (trace (snd (fetch og u i s))) = refreshes (trace s)"
  "attempts og' (trace (snd (fetch og u i s))) = attempts og' (trace s) + (if og = og' then 1 else 0)"
  "auth_errors (trace (snd (fetch og u i s))) = auth_errors (trace s)"
  using fetch_trace [of og u i s] by auto

lemma buildHeaders_counts:
  "config (snd (buildHeaders skip s)) = config s"
  "refreshes (trace (snd (buildHeaders skip s))) =
     refreshes (trace s) +
       (if \<not> skip \<and> authMode (config s) = Jwt \<and> autoRefresh (config s) \<and> isTokenExpired s then 1 else 0)"
  "og \<noteq> Refresh \<Longrightarrow> attempts og (trace (snd (buildHeaders skip s))) = attempts og (trace s)"
  "auth_errors (trace (snd (buildHeaders skip s))) = auth_errors (trace s)"
  by (simp_all add: buildHeaders_def Let_def refreshToken_counts)

lemma first_attempt_config: "config (snd (first_attempt m p opts s)) = config s"
  by (simp add: first_attempt_def buildHeaders_counts split: prod.splits)
     (metis buildHeaders_counts(1) snd_conv)

lemma buildUrl_config: "config s' = config s \<Longrightarrow> buildUrl p ps s' = buildUrl p ps s"
  by (simp add: buildUrl_def)

lemma fetch_init_config:
  "config s' = config s \<Longrightarrow> fetch_init m h sg opts s' = fetch_init m h sg opts s"
  by (simp add: fetch_init_def)

lemma fetch_init_no_headers [simp]:
  "opt_headers opts = None \<Longrightarrow> init_headers (fetch_init m h sg opts s) = h"
  by (simp add: fetch_init_def spread_key_def obj_spread_def)

text \<open>
  Headers that the caller passes are first spread over the built ones and then, with the
  rest of the caller's options, replace the result: the \<^verbatim>\<open>fetch\<close> carries the caller's
  headers alone.
\<close>

lemma fetch_init_caller_headers:
  "opt_headers opts = Some h \<Longrightarrow> init_headers (fetch_init m built sg opts s) = h"
  by (simp add: fetch_init_def spread_key_def)

lemma fetch_init_no_signal [simp]:
  "opt_signal opts = None \<Longrightarrow> init_signal (fetch_init m h sg opts s) = sg"
  by (simp add: fetch_init_def spread_key_def)

lemma request_first_attempt:
  "request meth path options s =
     (case first_attempt meth path options s of
        (Inl e, s2) \<Rightarrow> (Inl (rethrow e), s2)
      | (Inr response, s2) \<Rightarrow>
          if status response = 401 \<and> \<not> skipAuth options \<and> autoRefresh (config s)
          then (case refreshToken s2 of
                  (Inl e, s3) \<Rightarrow> (Inl (rethrow e), notifyAuthError s3)
                | (Inr tokens, s3) \<Rightarrow>
                    (case retry_attempt meth path options s3 of
                       (Inl e, s5) \<Rightarrow> (Inl (rethrow e), notifyAuthError s5)
                     | (Inr retryResponse, s5) \<Rightarrow>
                         (case finish (rawResponse options) retryResponse of
                            Inl e \<Rightarrow> (Inl (rethrow e), notifyAuthError s5)
                          | Inr v \<Rightarrow> (Inr v, s5))))
          else (case finish (rawResponse options) response of
                  Inl e \<Rightarrow> (Inl (rethrow e), s2)
                | Inr v \<Rightarrow> (Inr v, s2)))"
proof -
  obtain hdrs s1 where b: "buildHeaders (skipAuth options) s = (hdrs, s1)"
    by (cases "buildHeaders (skipAuth options) s")
  have c1: "config s1 = config s" using buildHeaders_counts(1)[of "skipAuth options" s] b by simp
  let ?i = "fetch_init meth hdrs (Some (clock s1 + int (requestTimeout options s1))) options s1"
  obtain r s2 where f: "fetch Original (buildUrl path (params options) s) ?i s1 = (r, s2)"
    by (cases "fetch Original (buildUrl path (params options) s) ?i s1")
  have c2: "config s2 = config s"
    using fetch_fields(1)[of Original "buildUrl path (params options) s" ?i s1] f c1 by simp
  have u: "\<And>s3. config s3 = config s \<Longrightarrow>
      buildUrl path (params options) s3 = buildUrl path (params options) s"
    by (rule buildUrl_config)
  show ?thesis
  proof (cases r)
    case (Inl e)
    with b f show ?thesis by (simp add: request_def first_attempt_def Let_def)
  next
    case (Inr response)
    show ?thesis
    proof (cases "refreshToken s2")
      case (Pair r3 s3)
      have c3: "config s3 = config s" using refreshToken_counts(4)[of s2] Pair c2 by simp
      show ?thesis using b f Inr Pair c2 u[OF c3]
        by (simp add: request_def first_attempt_def retry_attempt_def Let_def
            split: sum.splits prod.splits)
    qed
  qed
qed

lemma notifyAuthError_counts [simp]:
  "refreshes (trace (notifyAuthError s)) = refreshes (trace s)"
  "attempts og (trace (notifyAuthError s)) = attempts og (trace s)"
  "auth_errors (trace (notifyAuthError s)) = auth_errors (trace s) + (if onAuthError (config s) then 1 else 0)"
  "config (notifyAuthError s) = config s"
  by (simp_all add: notifyAuthError_def)

lemma notifyAuthError_mem: "x \<in> set (trace s) \<Longrightarrow> x \<in> set (trace (notifyAuthError s))"
  by (simp add: notifyAuthError_def)

lemma retry_attempt_counts:
  "config (snd (retry_attempt m p opts s)) = config s"
  "refreshes (trace (snd (retry_attempt m p opts s))) =
     refreshes (trace s) +
       (if authMode (config s) = Jwt \<and> autoRefresh (config s) \<and> isTokenExpired s then 1 else 0)"
  "attempts Retry (trace (snd (retry_attempt m p opts s))) = Suc (attempts Retry (trace s))"
  "attempts Original (trace (snd (retry_attempt m p opts s))) = attempts Original (trace s)"
  "auth_errors (trace (snd (retry_attempt m p opts s))) = auth_errors (trace s)"
proof -
  obtain h s1 where b: "buildHeaders False s = (h, s1)" by (cases "buildHeaders False s")
  have s1: "s1 = snd (buildHeaders False s)" using b by simp
  show "config (snd (retry_attempt m p opts s)) = config s"
    "refreshes (trace (snd (retry_attempt m p opts s))) =
     refreshes (trace s) +
       (if authMode (config s) = Jwt \<and> autoRefresh (config s) \<and> isTokenExpired s then 1 else 0)"
    "attempts Retry (trace (snd (retry_attempt m p opts s))) = Suc (attempts Retry (trace s))"
    "attempts Original (trace (snd (retry_attempt m p opts s))) = attempts Original (trace s)"
    "auth_errors (trace (snd (retry_attempt m p opts s))) = auth_errors (trace s)"
    by (simp_all add: retry_attempt_def b fetch_counts) (simp_all add: s1 buildHeaders_counts)
qed

lemma retry_attempt_trace:
  "\<exists>c. trace (snd (retry_attempt m p opts s)) =
     trace (snd (buildHeaders False s)) @
       Fetch Retry (buildUrl p (params opts) s)
         (fetch_init m (fst (buildHeaders False s)) None opts (snd (buildHeaders False s))) # c"
proof -
  obtain h s1 where b: "buildHeaders False s = (h, s1)" by (cases "buildHeaders False s")
  show ?thesis
    using fetch_trace[of Retry "buildUrl p (params opts) s" "fetch_init m h None opts s1" s1]
    by (auto simp add: retry_attempt_def b)
qed


lemma refreshToken_prefix: "prefix (trace s) (trace (snd (refreshToken s)))"
  using refresh_exchange_trace[of s] by (auto simp: refreshToken_def prefix_def)

lemma buildHeaders_prefix: "prefix (trace s) (trace (snd (buildHeaders skip s)))"
  by (simp add: buildHeaders_def Let_def refreshToken_prefix)

lemma fetch_prefix: "prefix (trace s) (trace (snd (fetch og u i s)))"
  using fetch_trace[of og u i s] by (auto simp: prefix_def)

lemma retry_attempt_prefix: "prefix (trace s) (trace (snd (retry_attempt m p opts s)))"
proof -
  obtain h s1 where b: "buildHeaders False s = (h, s1)" by (cases "buildHeaders False s")
  have "prefix (trace s) (trace s1)" using buildHeaders_prefix[of s False] b by simp
  moreover have "prefix (trace s1) (trace (snd (retry_attempt m p opts s)))"
    by (simp add: retry_attempt_def b fetch_prefix)
  ultimately show ?thesis by (rule prefix_order.trans)
qed

lemma notifyAuthError_prefix: "prefix (trace s) (trace (notifyAuthError s))"
  by (simp add: notifyAuthError_def)

lemma request_prefix:
  "prefix (trace (snd (first_attempt meth path options s))) (trace (snd (request meth path options s)))"
proof -
  obtain r s2 where f: "first_attempt meth path options s = (r, s2)"
    by (cases "first_attempt meth path options s")
  obtain r3 s3 where rt: "refreshToken s2 = (r3, s3)" by (cases "refreshToken s2")
  obtain r5 s5 where ra: "retry_attempt meth path options s3 = (r5, s5)"
    by (cases "retry_attempt meth path options s3")
  have 1: "prefix (trace s2) (trace s3)" using refreshToken_prefix[of s2] rt by simp
  have 2: "prefix (trace s3) (trace s5)" using retry_attempt_prefix[of s3 meth path options] ra by simp
  have 3: "prefix (trace s2) (trace s5)" using 1 2 by (rule prefix_order.trans)
  have 4: "prefix (trace s2) (trace (notifyAuthError s3))"
    using 1 notifyAuthError_prefix by (rule prefix_order.trans)
  have 5: "prefix (trace s2) (trace (notifyAuthError s5))"
    using 3 notifyAuthError_prefix by (rule prefix_order.trans)
  show ?thesis using f rt ra 3 4 5
    by (simp add: request_first_attempt split: sum.splits)
qed

lemma parseInt_Nil [simp]: "parseInt [] = None"
  by (simp add: parseInt_def)

lemma getAccessToken_cong:
  "config s' = config s \<Longrightarrow> storage s' = storage s \<Longrightarrow> getAccessToken s' = getAccessToken s"
  by (simp add: getAccessToken_def)


lemma keys_distinct [simp]:
  "ACCESS_TOKEN \<noteq> REFRESH_TOKEN" "ACCESS_TOKEN \<noteq> TOKEN_EXPIRY" "ACCESS_TOKEN \<noteq> USER" "ACCESS_TOKEN \<noteq> TENANT"
  "REFRESH_TOKEN \<noteq> TOKEN_EXPIRY" "REFRESH_TOKEN \<noteq> USER" "REFRESH_TOKEN \<noteq> TENANT"
  "TOKEN_EXPIRY \<noteq> USER" "TOKEN_EXPIRY \<noteq> TENANT" "USER \<noteq> TENANT"
  by (simp_all add: ACCESS_TOKEN_def REFRESH_TOKEN_def TOKEN_EXPIRY_def USER_def TENANT_def)


lemmas client_defs =
  request_def buildHeaders_def refreshToken_def refresh_exchange_def fetch_def settle_def
  delay_def store_tokens_def storage_set_def storage_remove_def isTokenExpired_def
  getAccessToken_def truthy_def buildUrl_def obj_spread_def requestTimeout_def finish_def
  refresh_init_def tokens_of_def fetch_init_def spread_key_def
  parseError_def ok_def notifyAuthError_def first_attempt_def retry_attempt_def
  jwt_config_def signed_in_def expiring_def unauthorized_def success_def no_options_def
  ACCESS_TOKEN_def REFRESH_TOKEN_def TOKEN_EXPIRY_def USER_def TENANT_def
  parseInt_def isWhiteSpace_def digit_value_def toString_def digit_char_def
  refreshes_def attempts_def auth_errors_def is_fetch_def Let_def

subsection \<open>Refresh before the request\<close>

text \<open>
  C7. The claim: in JWT mode, with authentication not skipped and automatic refresh on,
  a stored expiry no more than 60 seconds ahead makes the request refresh first; a
  failure of that refresh is swallowed and the request goes on, attaching whatever
  access token is stored. \<^verbatim>\<open>getAccessToken\<close> gives the static token of the configuration
  first (its comment: static token takes precedence). A client configured with the static
  token \<^verbatim>\<open>t0\<close>, with \<^verbatim>\<open>a0\<close> stored and an expiry 30 seconds away, whose refresh the
  endpoint answers with 401: the request goes on, \<^verbatim>\<open>a0\<close> is still the stored access token,
  and the request carries \<^verbatim>\<open>t0\<close>.
\<close>

theorem C7_counterexample:
  "(case request ''GET'' ''/items/products'' no_options
          (with_static_token [Answer 10 unauthorized, Answer 10 (success (Data ''[]''))]) of
      (r, s') \<Rightarrow> (r, storage s' ACCESS_TOKEN, trace s')) =
     (Inr (Parsed (Data ''[]'')), Some ''a0'',
      [RefreshStarted,
       Fetch Refresh (URL ''/auth/refresh'' ''https://api.example.com'' [])
         \<lparr>init_method = ''POST'', init_headers = [(''Content-Type'', ''application/json'')],
          init_credentials = ''same-origin'', init_signal = None\<rparr>,
       Fetch Original (URL ''/items/products'' ''https://api.example.com'' [])
         \<lparr>init_method = ''GET'',
          init_headers = [(''Content-Type'', ''application/json''), (''Authorization'', ''Bearer t0'')],
          init_credentials = ''same-origin'', init_signal = Some 1030010\<rparr>])"
  by (simp add: client_defs with_static_token_def)

text \<open>
  C7, amended. A request in JWT mode that does not skip authentication, with automatic
  refresh on and a stored expiry that \<^verbatim>\<open>parseInt\<close> reads as a number no more than 60
  seconds ahead of the clock: \<^verbatim>\<open>refreshToken\<close> is entered first and the first \<^verbatim>\<open>fetch\<close> of
  the request comes after everything the refresh did, whatever the outcome of the refresh;
  when the caller passed no headers, it carries the headers that \<^verbatim>\<open>buildHeaders\<close> returned.
  If the refresh failed, the storage is as it was before and those headers are the default
  ones with the bearer token that the client resolves from that same state: the static
  token of the configuration when there is one, else the stored access token (and no
  \<^verbatim>\<open>Authorization\<close> header when there is neither). What the server then answers is handled
  by the rest of \<^verbatim>\<open>request\<close>.
\<close>

theorem C7_proactive_refresh:
  assumes "authMode (config s) = Jwt" and "autoRefresh (config s)" and "\<not> skipAuth options"
    and "storage s TOKEN_EXPIRY = Some e" and "parseInt e = Some expiryTime"
    and "clock s \<ge> expiryTime - 60 * 1000"
  shows
    "\<exists>tr i rest.
       trace (snd (refreshToken s)) = trace s @ RefreshStarted # tr \<and>
       attempts Original tr = 0 \<and>
       trace (snd (request meth path options s)) =
         trace (snd (refreshToken s)) @
           Fetch Original (buildUrl path (params options) s) i # rest \<and>
       (opt_headers options = None \<longrightarrow> init_headers i = fst (buildHeaders False s)) \<and>
       (if isl (fst (refreshToken s))
        then storage (snd (refreshToken s)) = storage s \<and>
             fst (buildHeaders False s) =
               (let h0 = obj_spread [(''Content-Type'', ''application/json'')] (headers (config s));
                    h1 = (if truthy (tenantId (config s))
                          then obj_set h0 ''X-Tenant-Id'' (the (tenantId (config s))) else h0)
                in if truthy (getAccessToken s)
                   then obj_set h1 ''Authorization'' (''Bearer '' @ the (getAccessToken s))
                   else h1)
        else True)"
proof -
  have ne: "e \<noteq> []" using assms(5) by auto
  have ex: "isTokenExpired s" using assms(4,5,6) ne by (simp add: isTokenExpired_def truthy_def)
  obtain tr where tr: "trace (snd (refreshToken s)) = trace s @ RefreshStarted # tr"
    and re: "\<forall>e \<in> set tr. refresh_effect e"
    using refresh_exchange_trace[of s] by (auto simp: refreshToken_def)
  have a0: "attempts Original tr = 0" using re by (simp add: counts_refresh_effects)
  have bh: "snd (buildHeaders False s) = snd (refreshToken s)"
    using assms(1,2) ex by (simp add: buildHeaders_def Let_def)
  define i where "i = fetch_init meth (fst (buildHeaders False s))
        (Some (clock (snd (refreshToken s)) + int (requestTimeout options (snd (refreshToken s)))))
        options (snd (refreshToken s))"
  have fa: "first_attempt meth path options s =
      fetch Original (buildUrl path (params options) s) i (snd (refreshToken s))"
    using assms(3) bh by (cases "buildHeaders False s") (simp add: first_attempt_def i_def)
  from fetch_trace[of Original "buildUrl path (params options) s" i "snd (refreshToken s)"]
  obtain c where ft: "trace (snd (first_attempt meth path options s)) =
      trace (snd (refreshToken s)) @ Fetch Original (buildUrl path (params options) s) i # c"
    unfolding fa by auto
  from request_prefix[of meth path options s] obtain rest where
    "trace (snd (request meth path options s)) =
         trace (snd (refreshToken s)) @
           Fetch Original (buildUrl path (params options) s) i # rest"
    unfolding ft prefix_def by auto
  moreover have "opt_headers options = None \<Longrightarrow> init_headers i = fst (buildHeaders False s)"
    by (simp add: i_def)
  moreover have "isl (fst (refreshToken s)) \<Longrightarrow> storage (snd (refreshToken s)) = storage s"
    by (auto simp: refreshToken_def isl_def dest: refresh_exchange_failure_storage)
  moreover have "isl (fst (refreshToken s)) \<Longrightarrow> fst (buildHeaders False s) =
               (let h0 = obj_spread [(''Content-Type'', ''application/json'')] (headers (config s));
                    h1 = (if truthy (tenantId (config s))
                          then obj_set h0 ''X-Tenant-Id'' (the (tenantId (config s))) else h0)
                in if truthy (getAccessToken s)
                   then obj_set h1 ''Authorization'' (''Bearer '' @ the (getAccessToken s))
                   else h1)"
  proof -
    assume "isl (fst (refreshToken s))"
    then have st: "storage (snd (refreshToken s)) = storage s"
      by (auto simp: refreshToken_def isl_def dest: refresh_exchange_failure_storage)
    have "getAccessToken (snd (refreshToken s)) = getAccessToken s"
      using st by (intro getAccessToken_cong) (simp_all add: refreshToken_counts)
    then show ?thesis using assms(1,2) ex by (simp add: buildHeaders_def Let_def)
  qed
  ultimately show ?thesis using tr a0 by auto
qed

theorem C7_witness:
  "authMode (config (expiring [Answer 10 unauthorized, Answer 10 (success (Data ''[]''))])) = Jwt \<and>
   autoRefresh (config (expiring [Answer 10 unauthorized, Answer 10 (success (Data ''[]''))])) \<and>
   \<not> skipAuth no_options \<and>
   storage (expiring [Answer 10 unauthorized, Answer 10 (success (Data ''[]''))]) TOKEN_EXPIRY =
     Some ''1030000'' \<and>
   parseInt ''1030000'' = Some 1030000 \<and>
   clock (expiring [Answer 10 unauthorized, Answer 10 (success (Data ''[]''))]) \<ge> 1030000 - 60 * 1000 \<and>
   opt_headers no_options = None \<and>
   isl (fst (refreshToken (expiring [Answer 10 unauthorized, Answer 10 (success (Data ''[]''))]))) \<and>
   (case request ''GET'' ''/items/products'' no_options
           (expiring [Answer 10 unauthorized, Answer 10 (success (Data ''[]''))]) of
      (r, s') \<Rightarrow> (r, trace s')) =
     (Inr (Parsed (Data ''[]'')),
      [RefreshStarted,
       Fetch Refresh (URL ''/auth/refresh'' ''https://api.example.com'' [])
         \<lparr>init_method = ''POST'', init_headers = [(''Content-Type'', ''application/json'')],
          init_credentials = ''same-origin'', init_signal = None\<rparr>,
       Fetch Original (URL ''/items/products'' ''https://api.example.com'' [])
         \<lparr>init_method = ''GET'',
          init_headers = [(''Content-Type'', ''application/json''), (''Authorization'', ''Bearer a0'')],
          init_credentials = ''same-origin'', init_signal = Some 1030010\<rparr>])"
proof -
  let ?s = "expiring [Answer 10 unauthorized, Answer 10 (success (Data ''[]''))]"
  have 1: "authMode (config ?s) = Jwt" "autoRefresh (config ?s)" "\<not> skipAuth no_options"
    "storage ?s TOKEN_EXPIRY = Some ''1030000''" "parseInt ''1030000'' = Some 1030000"
    "clock ?s \<ge> 1030000 - 60 * 1000"
    by (simp_all add: client_defs)
  from C7_proactive_refresh [OF 1, of "''GET''" "''/items/products''"] 1
  show ?thesis by (simp add: client_defs)
qed

subsection \<open>Refresh and retry after a 401\<close>

text \<open>
  C2. The claim: with authentication not skipped and automatic refresh on, a 401 answer
  triggers exactly one refresh followed by exactly one retry with rebuilt headers, and a
  second 401 on the retry is surfaced with the authentication-lost notification fired
  once. Two runs of the code against it. In the first the refresh endpoint answers 401:
  the refresh fails and there is no retry. In the second the refresh succeeds with a token
  that lives 30 seconds: the headers are rebuilt by \<^verbatim>\<open>buildHeaders\<close>, which finds the new
  expiry inside its 60-second buffer and refreshes again, so the one 401 is followed by two
  refreshes before the one retry.
\<close>

theorem C2_counterexample:
  "(case request ''GET'' ''/items/products'' no_options
          (signed_in [Answer 10 unauthorized, Answer 10 unauthorized]) of
      (r, s) \<Rightarrow> (r, attempts Original (trace s), refreshes (trace s), attempts Retry (trace s))) =
     (Inl (BaasixError ''Token refresh failed'' 401 (Some ''REFRESH_FAILED'')), 1, 1, 0) \<and>
   (case request ''GET'' ''/items/products'' no_options
          (signed_in [Answer 10 unauthorized,
                      Answer 10 (success (TokenData (Some ''a1'') None (Some 30))),
                      Answer 10 (success (TokenData (Some ''a2'') None (Some 30))),
                      Answer 10 (success (Data ''[]''))]) of
      (r, s) \<Rightarrow> (r, attempts Original (trace s), refreshes (trace s), attempts Retry (trace s))) =
     (Inr (Parsed (Data ''[]'')), 1, 2, 1)"
  by (simp add: client_defs digits.simps)

text \<open>
  C2, amended. For a request with authentication not skipped and automatic refresh on,
  whose first attempt is answered with 401: \<^verbatim>\<open>refreshToken\<close> is called once by the 401
  branch and there is no further first attempt. If that refresh fails there is no retry,
  the failure is what the caller gets, and the authentication-lost callback (when one is
  registered) is called once. If it succeeds, the headers are rebuilt by \<^verbatim>\<open>buildHeaders\<close>
  (which, in JWT mode, refreshes once more when the stored expiry is within the buffer
  at that moment) and the call is retried exactly once, with those headers when the
  caller passed no headers; whatever the retry brings, there is no third attempt; a retry
  that is answered with a status that is not a success, such as a second 401, gives the
  caller the failure made from that answer; and the authentication-lost callback is called
  exactly once when the caller gets a failure and not at all otherwise.
\<close>

theorem C2_refresh_and_retry:
  assumes "\<not> skipAuth options" and "autoRefresh (config s)"
    and "first_attempt meth path options s = (Inr response, s2)"
    and "status response = 401"
  shows
    "(case refreshToken s2 of
        (Inl e, s3) \<Rightarrow>
          (case request meth path options s of
             (r, s') \<Rightarrow>
               r = Inl (rethrow e) \<and>
               refreshes (trace s') = refreshes (trace s2) + 1 \<and>
               attempts Original (trace s') = attempts Original (trace s2) \<and>
               attempts Retry (trace s') = attempts Retry (trace s2) \<and>
               auth_errors (trace s') =
                 auth_errors (trace s2) + (if onAuthError (config s) then 1 else 0))
      | (Inr tokens, s3) \<Rightarrow>
          (case request meth path options s of
             (r, s') \<Rightarrow>
               refreshes (trace s') =
                 refreshes (trace s2) + 1 +
                   (if authMode (config s) = Jwt \<and> isTokenExpired s3 then 1 else 0) \<and>
               attempts Original (trace s') = attempts Original (trace s2) \<and>
               attempts Retry (trace s') = attempts Retry (trace s2) + 1 \<and>
               (\<exists>i. Fetch Retry (buildUrl path (params options) s) i \<in> set (trace s') \<and>
                    (opt_headers options = None \<longrightarrow>
                       init_headers i = fst (buildHeaders False s3))) \<and>
               auth_errors (trace s') =
                 auth_errors (trace s2) + (if isl r \<and> onAuthError (config s) then 1 else 0) \<and>
               (case retry_attempt meth path options s3 of
                  (Inl e, s5) \<Rightarrow> r = Inl (rethrow e)
                | (Inr retryResponse, s5) \<Rightarrow>
                    if ok retryResponse then isl r = isl (finish (rawResponse options) retryResponse)
                    else r = Inl (rethrow (parseError retryResponse)))))"
proof (cases "refreshToken s2")
  case (Pair r3 s3)
  have c2: "config s2 = config s"
    using first_attempt_config[of meth path options s] assms(3) by simp
  have c3: "config s3 = config s" using refreshToken_counts(4)[of s2] Pair c2 by simp
  have s3: "s3 = snd (refreshToken s2)" using Pair by simp
  have rc: "refreshes (trace s3) = Suc (refreshes (trace s2))"
    "attempts Original (trace s3) = attempts Original (trace s2)"
    "attempts Retry (trace s3) = attempts Retry (trace s2)"
    "auth_errors (trace s3) = auth_errors (trace s2)"
    by (simp_all add: s3 refreshToken_counts)
  show ?thesis
  proof (cases r3)
    case (Inl e)
    with Pair assms c2 c3 rc show ?thesis
      by (simp add: request_first_attempt)
  next
    case (Inr tokens)
    obtain r5 s5 where ra: "retry_attempt meth path options s3 = (r5, s5)"
      by (cases "retry_attempt meth path options s3")
    have s5: "s5 = snd (retry_attempt meth path options s3)" using ra by simp
    have rac: "config s5 = config s3"
      "refreshes (trace s5) = refreshes (trace s3) +
         (if authMode (config s3) = Jwt \<and> autoRefresh (config s3) \<and> isTokenExpired s3 then 1 else 0)"
      "attempts Retry (trace s5) = Suc (attempts Retry (trace s3))"
      "attempts Original (trace s5) = attempts Original (trace s3)"
      "auth_errors (trace s5) = auth_errors (trace s3)"
      by (simp_all add: s5 retry_attempt_counts)
    have tr: "\<exists>i. Fetch Retry (buildUrl path (params options) s) i \<in> set (trace s5) \<and>
                (opt_headers options = None \<longrightarrow> init_headers i = fst (buildHeaders False s3))"
    proof -
      from retry_attempt_trace[of meth path options s3] obtain c where
        "trace s5 = trace (snd (buildHeaders False s3)) @
           Fetch Retry (buildUrl path (params options) s3)
             (fetch_init meth (fst (buildHeaders False s3)) None options (snd (buildHeaders False s3))) # c"
        using ra by auto
      then have "Fetch Retry (buildUrl path (params options) s)
             (fetch_init meth (fst (buildHeaders False s3)) None options (snd (buildHeaders False s3)))
           \<in> set (trace s5)"
        using buildUrl_config[OF c3, of path "params options"] by simp
      then show ?thesis by (intro exI conjI impI) (assumption, simp)
    qed
    have trn: "\<And>t. trace t = trace s5 \<or> set (trace s5) \<subseteq> set (trace t) \<Longrightarrow>
        \<exists>i. Fetch Retry (buildUrl path (params options) s) i \<in> set (trace t) \<and>
            (opt_headers options = None \<longrightarrow> init_headers i = fst (buildHeaders False s3))"
      using tr by auto
    show ?thesis
    proof (cases r5)
      case i: (Inl e)
      have "\<exists>i. Fetch Retry (buildUrl path (params options) s) i \<in> set (trace (notifyAuthError s5)) \<and>
            (opt_headers options = None \<longrightarrow> init_headers i = fst (buildHeaders False s3))"
        by (rule trn) (auto simp: notifyAuthError_mem)
      with i Inr Pair assms c2 c3 rc ra rac show ?thesis
        by (simp add: request_first_attempt)
    next
      case r: (Inr retryResponse)
      have tn: "\<exists>i. Fetch Retry (buildUrl path (params options) s) i \<in> set (trace (notifyAuthError s5)) \<and>
            (opt_headers options = None \<longrightarrow> init_headers i = fst (buildHeaders False s3))"
        by (rule trn) (auto simp: notifyAuthError_mem)
      show ?thesis
      proof (cases "finish (rawResponse options) retryResponse")
        case fl: (Inl e)
        have e: "\<not> ok retryResponse \<Longrightarrow> e = parseError retryResponse"
          using fl by (simp add: finish_def)
        from fl r Inr Pair assms c2 c3 rc ra rac tn e show ?thesis
          by (simp add: request_first_attempt)
      next
        case fr: (Inr v)
        then have "ok retryResponse" by (simp add: finish_def split: if_splits)
        with fr r Inr Pair assms c2 c3 rc ra rac tr show ?thesis
          by (simp add: request_first_attempt)
      qed
    qed
  qed
qed

theorem C2_witness:
  "\<not> skipAuth no_options \<and>
   autoRefresh (config (signed_in [Answer 10 unauthorized,
      Answer 10 (success (TokenData (Some ''a1'') None (Some 3600))), Answer 10 unauthorized])) \<and>
   fst (first_attempt ''GET'' ''/items/products'' no_options (signed_in [Answer 10 unauthorized,
      Answer 10 (success (TokenData (Some ''a1'') None (Some 3600))), Answer 10 unauthorized])) =
     Inr unauthorized \<and>
   status unauthorized = 401 \<and>
   opt_headers no_options = None \<and>
   (case request ''GET'' ''/items/products'' no_options (signed_in [Answer 10 unauthorized,
      Answer 10 (success (TokenData (Some ''a1'') None (Some 3600))), Answer 10 unauthorized]) of
      (r, s') \<Rightarrow>
        (r, refreshes (trace s'), attempts Original (trace s'), attempts Retry (trace s'),
         auth_errors (trace s'))) =
     (Inl (BaasixError ''Unauthorized'' 401 None), 1, 1, 1, 1)"
proof -
  let ?s = "signed_in [Answer 10 unauthorized,
      Answer 10 (success (TokenData (Some ''a1'') None (Some 3600))), Answer 10 unauthorized]"
  define s2 where "s2 = snd (first_attempt ''GET'' ''/items/products'' no_options ?s)"
  have fa: "first_attempt ''GET'' ''/items/products'' no_options ?s = (Inr unauthorized, s2)"
    unfolding s2_def by (simp add: client_defs)
  have 1: "\<not> skipAuth no_options" "autoRefresh (config ?s)" "status unauthorized = 401"
    by (simp_all add: client_defs)
  from C2_refresh_and_retry [OF 1(1,2) fa 1(3)] 1 fa
  show ?thesis by (simp add: client_defs digits.simps)
qed

subsection \<open>Clearing the stored tokens\<close>

text \<open>
  C8. The claim: the stored values are erased on logout and on a refresh that fails. The
  code erases them in \<^verbatim>\<open>clearAuth\<close>, which \<^verbatim>\<open>logout\<close> calls (and \<^verbatim>\<open>getUser\<close>, for a
  failure with status 401); nothing in \<^verbatim>\<open>refreshToken\<close> or in \<^verbatim>\<open>request\<close> calls it or
  removes a key. A refresh that the endpoint answers with 401, alone and inside a request:
  the failure reaches the caller, the authentication-lost callback is called, and the
  access token and the refresh token are still in the storage.
\<close>

theorem C8_counterexample:
  "(case refreshToken (signed_in [Answer 10 unauthorized]) of
      (r, s) \<Rightarrow> (r, storage s ACCESS_TOKEN, storage s REFRESH_TOKEN)) =
     (Inl (BaasixError ''Token refresh failed'' 401 (Some ''REFRESH_FAILED'')),
      Some ''a0'', Some ''r0'') \<and>
   (case request ''GET'' ''/items/products'' no_options
          (signed_in [Answer 10 unauthorized, Answer 10 unauthorized]) of
      (r, s) \<Rightarrow> (r, storage s ACCESS_TOKEN, storage s REFRESH_TOKEN, auth_errors (trace s))) =
     (Inl (BaasixError ''Token refresh failed'' 401 (Some ''REFRESH_FAILED'')),
      Some ''a0'', Some ''r0'', 1)"
  by (simp add: client_defs)

text \<open>
  C8, amended. After \<^verbatim>\<open>logout\<close>, whatever the state before and whatever the logout
  request brought, the access token, the refresh token, the expiry, the tenant (and the
  user) are absent from the storage; the same holds after a \<^verbatim>\<open>getUser\<close> whose request
  failed with status 401, which gives \<^verbatim>\<open>null\<close>. A refresh that fails leaves the storage as
  it was.
\<close>

theorem C8_logout_clears_refresh_failure_keeps:
  assumes "fst (refreshToken s) = Inl e"
    and "fst (request ''GET'' ''/auth/me'' no_options (client b)) = Inl (BaasixError m 401 code)"
  shows "storage (client (logout a)) ACCESS_TOKEN = None \<and>
         storage (client (logout a)) REFRESH_TOKEN = None \<and>
         storage (client (logout a)) TOKEN_EXPIRY = None \<and>
         storage (client (logout a)) TENANT = None \<and>
         storage (client (logout a)) USER = None \<and>
         fst (getUser b) = Inr None \<and>
         storage (client (snd (getUser b))) ACCESS_TOKEN = None \<and>
         storage (client (snd (getUser b))) REFRESH_TOKEN = None \<and>
         storage (client (snd (getUser b))) TOKEN_EXPIRY = None \<and>
         storage (client (snd (getUser b))) TENANT = None \<and>
         storage (client (snd (getUser b))) USER = None \<and>
         storage (snd (refreshToken s)) = storage s"
proof -
  have "storage (client (logout a)) k = None"
    if "k \<in> {ACCESS_TOKEN, REFRESH_TOKEN, TOKEN_EXPIRY, TENANT, USER}" for k
    using that
    by (auto simp add: logout_def clearAuth_def emitAuthStateChange_def storage_remove_def
        split: prod.splits)
  moreover have "storage (client (snd (getUser b))) k = None"
    if "k \<in> {ACCESS_TOKEN, REFRESH_TOKEN, TOKEN_EXPIRY, TENANT, USER}" for k
    using that assms(2)
    by (cases "request ''GET'' ''/auth/me'' no_options (client b)")
       (auto simp add: getUser_def clearAuth_def storage_remove_def)
  moreover have "fst (getUser b) = Inr None"
    using assms(2)
    by (cases "request ''GET'' ''/auth/me'' no_options (client b)") (simp add: getUser_def)
  moreover have "storage (snd (refreshToken s)) = storage s"
    using assms(1) by (simp add: refreshToken_def refresh_exchange_failure_storage)
  ultimately show ?thesis by simp
qed

theorem C8_witness:
  "fst (refreshToken (signed_in [Answer 10 unauthorized])) =
     Inl (BaasixError ''Token refresh failed'' 401 (Some ''REFRESH_FAILED'')) \<and>
   fst (request ''GET'' ''/auth/me'' no_options
          (client \<lparr>client = signed_in [Answer 10 unauthorized, Answer 10 unauthorized],
                   currentUser = None\<rparr>)) =
     Inl (BaasixError ''Token refresh failed'' 401 (Some ''REFRESH_FAILED'')) \<and>
   storage (signed_in [Answer 10 unauthorized]) ACCESS_TOKEN = Some ''a0'' \<and>
   storage (client (logout \<lparr>client = signed_in [Answer 10 unauthorized], currentUser = None\<rparr>))
     ACCESS_TOKEN = None \<and>
   storage (client (logout \<lparr>client = signed_in [Answer 10 unauthorized], currentUser = None\<rparr>))
     REFRESH_TOKEN = None \<and>
   storage (client (logout \<lparr>client = signed_in [Answer 10 unauthorized], currentUser = None\<rparr>))
     TOKEN_EXPIRY = None \<and>
   storage (client (logout \<lparr>client = signed_in [Answer 10 unauthorized], currentUser = None\<rparr>))
     TENANT = None \<and>
   storage (client (snd (getUser
      \<lparr>client = signed_in [Answer 10 unauthorized, Answer 10 unauthorized],
        currentUser = None\<rparr>))) ACCESS_TOKEN = None \<and>
   storage (client (snd (getUser
      \<lparr>client = signed_in [Answer 10 unauthorized, Answer 10 unauthorized],
        currentUser = None\<rparr>))) REFRESH_TOKEN = None \<and>
   storage (snd (refreshToken (signed_in [Answer 10 unauthorized]))) ACCESS_TOKEN = Some ''a0''"
proof -
  have 1: "fst (refreshToken (signed_in [Answer 10 unauthorized])) =
     Inl (BaasixError ''Token refresh failed'' 401 (Some ''REFRESH_FAILED''))"
    by (simp add: client_defs)
  have 2: "storage (signed_in [Answer 10 unauthorized]) ACCESS_TOKEN = Some ''a0''"
    by (simp add: client_defs)
  have 3: "fst (request ''GET'' ''/auth/me'' no_options
          (client \<lparr>client = signed_in [Answer 10 unauthorized, Answer 10 unauthorized],
                   currentUser = None\<rparr>)) =
     Inl (BaasixError ''Token refresh failed'' 401 (Some ''REFRESH_FAILED''))"
    by (simp add: client_defs)
  from C8_logout_clears_refresh_failure_keeps [OF 1 3,
      of "\<lparr>client = signed_in [Answer 10 unauthorized], currentUser = None\<rparr>"] 1 2 3
  show ?thesis by simp
qed

subsection \<open>The timeout\<close>

text \<open>
  C9. The claim: every network attempt of a call, the first one and the retry after a
  401, runs under the timeout, is cancelled when the timeout expires and gives the caller
  a Timeout failure. The first \<^verbatim>\<open>fetch\<close> is given \<^verbatim>\<open>controller.signal\<close>; the \<^verbatim>\<open>fetch\<close> of the
  retry is not. With a timeout of 30 seconds and an answer that takes 45 seconds: as the
  answer to the first attempt it is cancelled at 30 seconds and the caller gets the
  Timeout failure; as the answer to the retry it is waited for, nothing is cancelled, and
  the caller gets the answer 45 seconds after the retry began.
\<close>

theorem C9_retry_not_under_timeout:
  "(case request ''GET'' ''/items/products'' no_options
          (signed_in [Answer 45000 (success (Data ''[]''))]) of
      (r, s) \<Rightarrow> (r, clock s, Cancelled Original \<in> set (trace s))) =
     (Inl (BaasixError ''Request timeout'' 408 (Some ''TIMEOUT'')), 1030000, True) \<and>
   (case request ''GET'' ''/items/products'' no_options
          (signed_in [Answer 10 unauthorized,
                      Answer 10 (success (TokenData (Some ''a1'') None None)),
                      Answer 45000 (success (Data ''[]''))]) of
      (r, s) \<Rightarrow> (r, clock s, Cancelled Retry \<in> set (trace s), attempts Retry (trace s))) =
     (Inr (Parsed (Data ''[]'')), 1045020, False, 1)"
  by (simp add: client_defs)


section \<open>Properties of the refresh coordinator\<close>

lemma refresh_exchange_attempts:
  "attempts Refresh (trace (snd (refresh_exchange c))) \<le> Suc (attempts Refresh (trace c))"
  by (cases c rule: refresh_exchange_cases) (simp_all add: store_tokens_trace)

lemma settled_simps [simp]:
  "settled [] = 0"
  "settled (ps @ qs) = settled ps + settled qs"
  "settled [Pending] = 0"
  by (simp_all add: settled_def)

lemma settled_update:
  "a < length ps \<Longrightarrow> ps ! a = Pending \<Longrightarrow> settled (ps[a := Settled r]) = Suc (settled ps)"
proof (induction ps arbitrary: a)
  case Nil
  then show ?case by simp
next
  case (Cons p ps)
  then show ?case by (cases a) (simp_all add: settled_def)
qed

lemma coordinated_new: "coordinated (attempts Refresh (trace c)) (new_Coordinator c)"
  by (simp add: coordinated_def new_Coordinator_def)

lemma coordinatedI:
  assumes "\<And>a. refreshPromise s = Some a \<Longrightarrow> a < length (promises s)"
    and "\<And>b. b < length (promises s) \<Longrightarrow> (promises s ! b = Pending) = (refreshPromise s = Some b)"
    and "attempts Refresh (trace (http s)) \<le> n0 + settled (promises s)"
    and "length (promises s) = settled (promises s) + (if refreshPromise s = None then 0 else 1)"
    and "\<And>k a r seen. (k, a, r, seen) \<in> set (returned s) \<Longrightarrow>
           a < length (promises s) \<and> promises s ! a = Settled r \<and> seen \<noteq> Some a"
  shows "coordinated n0 s"
  using assms unfolding coordinated_def by blast

lemma coordinatedD:
  assumes "coordinated n0 s"
  shows "\<And>a. refreshPromise s = Some a \<Longrightarrow> a < length (promises s)"
    and "\<And>b. b < length (promises s) \<Longrightarrow> (promises s ! b = Pending) = (refreshPromise s = Some b)"
    and "attempts Refresh (trace (http s)) \<le> n0 + settled (promises s)"
    and "length (promises s) = settled (promises s) + (if refreshPromise s = None then 0 else 1)"
    and "\<And>k a r seen. (k, a, r, seen) \<in> set (returned s) \<Longrightarrow>
           a < length (promises s) \<and> promises s ! a = Settled r \<and> seen \<noteq> Some a"
  using assms unfolding coordinated_def by blast+

lemma coordinated_step:
  assumes "coordinated n0 s" and "step e s = Some s'"
  shows "coordinated n0 s'"
proof (cases e)
  case (Call k)
  note d = coordinatedD[OF assms(1)]
  show ?thesis
  proof (cases "refreshPromise s")
    case None
    then have s': "s' = s\<lparr>promises := promises s @ [Pending],
                 refreshPromise := Some (length (promises s)),
                 awaiting := awaiting s @ [(k, length (promises s))]\<rparr>"
      using assms(2) Call by simp
    have np: "\<And>b. b < length (promises s) \<Longrightarrow> promises s ! b \<noteq> Pending"
      using d(2) None by simp
    show ?thesis
    proof (rule coordinatedI)
      fix b assume "b < length (promises s')"
      then show "(promises s' ! b = Pending) = (refreshPromise s' = Some b)"
        using np unfolding s' by (cases "b = length (promises s)") (simp_all add: nth_append)
    next
      fix k' a r seen assume "(k', a, r, seen) \<in> set (returned s')"
      then have "(k', a, r, seen) \<in> set (returned s)" unfolding s' by simp
      from d(5)[OF this] show "a < length (promises s') \<and> promises s' ! a = Settled r \<and> seen \<noteq> Some a"
        unfolding s' by (simp add: nth_append)
    qed (use d(3,4) None in \<open>simp_all add: s'\<close>)
  next
    case (Some a)
    then have s': "s' = s\<lparr>awaiting := awaiting s @ [(k, a)]\<rparr>"
      using assms(2) Call by simp
    show ?thesis
      by (rule coordinatedI) (use d in \<open>simp_all add: s'\<close>)
  qed
next
  case (Run a)
  note d = coordinatedD[OF assms(1)]
  from Run assms(2) have a: "a < length (promises s)" "promises s ! a = Pending"
    by (auto split: if_splits)
  obtain r c where x: "refresh_exchange (http s) = (r, c)" by (cases "refresh_exchange (http s)")
  have s': "s' = s\<lparr>http := c, refreshPromise := None, promises := (promises s)[a := Settled r]\<rparr>"
    using assms(2) Run a x by simp
  have rp: "refreshPromise s = Some a" using d(2)[OF a(1)] a(2) by simp
  have le: "attempts Refresh (trace c) \<le> Suc (attempts Refresh (trace (http s)))"
    using refresh_exchange_attempts[of "http s"] x by simp
  show ?thesis
  proof (rule coordinatedI)
    fix b assume "b < length (promises s')"
    then have b: "b < length (promises s)" unfolding s' by simp
    show "(promises s' ! b = Pending) = (refreshPromise s' = Some b)"
      using d(2)[OF b] rp a(1) unfolding s' by (cases "b = a") simp_all
  next
    show "attempts Refresh (trace (http s')) \<le> n0 + settled (promises s')"
      using le d(3) a unfolding s' by (simp add: settled_update)
  next
    show "length (promises s') = settled (promises s') + (if refreshPromise s' = None then 0 else 1)"
      using d(4) rp a unfolding s' by (simp add: settled_update)
  next
    fix k' a' r' seen assume "(k', a', r', seen) \<in> set (returned s')"
    then have "(k', a', r', seen) \<in> set (returned s)" unfolding s' by simp
    from d(5)[OF this] a(2)
    show "a' < length (promises s') \<and> promises s' ! a' = Settled r' \<and> seen \<noteq> Some a'"
      unfolding s' by (cases "a' = a") simp_all
  qed (simp add: s')
next
  case (Resume k)
  note d = coordinatedD[OF assms(1)]
  from Resume assms(2) obtain a r where a: "map_of (awaiting s) k = Some a"
    "a < length (promises s)" "promises s ! a = Settled r"
    and s': "s' = s\<lparr>awaiting := remove1 (k, a) (awaiting s),
                           returned := returned s @ [(k, a, r, refreshPromise s)]\<rparr>"
    by (auto split: option.splits if_splits promise.splits)
  have ns: "refreshPromise s \<noteq> Some a" using d(2)[OF a(2)] a(3) by auto
  show ?thesis
  proof (rule coordinatedI)
    fix k' a' r' seen assume "(k', a', r', seen) \<in> set (returned s')"
    then consider "(k', a', r', seen) \<in> set (returned s)" | "(k', a', r', seen) = (k, a, r, refreshPromise s)"
      unfolding s' by auto
    then show "a' < length (promises s') \<and> promises s' ! a' = Settled r' \<and> seen \<noteq> Some a'"
    proof cases
      case 1
      from d(5)[OF this] show ?thesis unfolding s' by simp
    next
      case 2
      then show ?thesis using a ns unfolding s' by simp
    qed
  qed (use d(1,2,3,4) in \<open>simp_all add: s'\<close>)
qed

lemma coordinated_run:
  "coordinated n0 s \<Longrightarrow> run evs s = Some s' \<Longrightarrow> coordinated n0 s'"
proof (induction evs arbitrary: s)
  case Nil
  then show ?case by simp
next
  case (Cons e evs)
  then show ?case by (auto split: option.splits dest: coordinated_step)
qed

lemma run_append: "run (es @ fs) s = (case run es s of None \<Rightarrow> None | Some s' \<Rightarrow> run fs s')"
  by (induction es arbitrary: s) (auto split: option.splits)

lemma run_calls:
  "refreshPromise s = Some a \<Longrightarrow>
   run (map Call ks) s = Some (s\<lparr>awaiting := awaiting s @ map (\<lambda>k. (k, a)) ks\<rparr>)"
  by (induction ks arbitrary: s) simp_all

lemma run_resumes:
  assumes "a < length (promises s)" "promises s ! a = Settled r"
  shows "awaiting s = map (\<lambda>k. (k, a)) ks \<Longrightarrow>
   run (map Resume ks) s =
     Some (s\<lparr>awaiting := [],
            returned := returned s @ map (\<lambda>k. (k, a, r, refreshPromise s)) ks\<rparr>)"
  using assms
  by (induction ks arbitrary: s) simp_all

text \<open>
  C1. From a new coordinator, after any sequence of calls of \<^verbatim>\<open>refreshToken\<close>, runs of the
  started exchange and resumptions of callers that the code allows: the network has seen
  at most one refresh call for each exchange that has run; all promises but at most one
  are settled, so a call made while a refresh is pending never starts another; every
  caller that has returned received the outcome with which its promise settled (the
  callers given the same promise received the same success or the same failure), and
  found \<^verbatim>\<open>refreshPromise\<close> no longer pointing to that promise. In particular, any number
  of callers that enter \<^verbatim>\<open>refreshToken\<close> before the exchange of the first has run are all
  given the one promise: one exchange runs, each caller receives its outcome, and each
  finds \<^verbatim>\<open>refreshPromise\<close> null.
\<close>

theorem C1_single_flight:
  assumes "run evs (new_Coordinator c) = Some s"
  shows "attempts Refresh (trace (http s)) \<le> attempts Refresh (trace c) + settled (promises s) \<and>
         length (promises s) \<le> Suc (settled (promises s)) \<and>
         (\<forall>(k, a, r, seen) \<in> set (returned s).
            a < length (promises s) \<and> promises s ! a = Settled r \<and> seen \<noteq> Some a) \<and>
         run (map Call (k # ks) @ Run 0 # map Resume (k # ks)) (new_Coordinator c) =
           Some \<lparr>http = snd (refresh_exchange c), refreshPromise = None,
                 promises = [Settled (fst (refresh_exchange c))], awaiting = [],
                 returned = map (\<lambda>k. (k, 0, fst (refresh_exchange c), None)) (k # ks)\<rparr>"
proof -
  have inv: "coordinated (attempts Refresh (trace c)) s"
    using coordinated_new assms by (rule coordinated_run)
  note d = coordinatedD[OF inv]
  have "length (promises s) \<le> Suc (settled (promises s))"
    using d(4) by simp
  moreover have "\<forall>(k, a, r, seen) \<in> set (returned s).
            a < length (promises s) \<and> promises s ! a = Settled r \<and> seen \<noteq> Some a"
    using d(5) by blast
  moreover note d(3)
  moreover have "run (map Call (k # ks) @ Run 0 # map Resume (k # ks)) (new_Coordinator c) =
           Some \<lparr>http = snd (refresh_exchange c), refreshPromise = None,
                 promises = [Settled (fst (refresh_exchange c))], awaiting = [],
                 returned = map (\<lambda>k. (k, 0, fst (refresh_exchange c), None)) (k # ks)\<rparr>"
  proof -
    let ?s1 = "\<lparr>http = c, refreshPromise = Some 0, promises = [Pending],
                awaiting = [(k, 0)], returned = []\<rparr>"
    have 1: "run (map Call (k # ks)) (new_Coordinator c) =
        Some (?s1\<lparr>awaiting := (k, 0) # map (\<lambda>k. (k, 0)) ks\<rparr>)"
      using run_calls[of ?s1 0 ks] by (simp add: new_Coordinator_def)
    let ?s2 = "\<lparr>http = snd (refresh_exchange c), refreshPromise = None,
                promises = [Settled (fst (refresh_exchange c))],
                awaiting = (k, 0) # map (\<lambda>k. (k, 0)) ks, returned = []\<rparr>"
    have 2: "step (Run 0) (?s1\<lparr>awaiting := (k, 0) # map (\<lambda>k. (k, 0)) ks\<rparr>) = Some ?s2"
      by (cases "refresh_exchange c") simp
    have 3: "run (map Resume (k # ks)) ?s2 =
        Some (?s2\<lparr>awaiting := [],
            returned := returned ?s2 @ map (\<lambda>k. (k, 0, fst (refresh_exchange c), refreshPromise ?s2)) (k # ks)\<rparr>)"
      by (rule run_resumes) simp_all
    show ?thesis
      by (simp only: run_append 1 option.case run.simps 2 3) simp
  qed
  ultimately show ?thesis by blast
qed

theorem C1_witness:
  "map_option
     (\<lambda>s. (attempts Refresh (trace (http s)), settled (promises s), length (promises s),
           map (\<lambda>(k, a, r, seen). (k, a, isl r, seen)) (returned s)))
     (run two_episodes
        (new_Coordinator (signed_in [Answer 10 (success (TokenData (Some ''a1'') None None)),
                                     Answer 10 unauthorized]))) =
   Some (2, 2, 2, [(2, 0, False, None), (1, 0, False, Some 1), (3, 0, False, Some 1),
                   (4, 1, True, None)])"
proof -
  let ?c = "signed_in [Answer 10 (success (TokenData (Some ''a1'') None None)), Answer 10 unauthorized]"
  obtain s where r: "run two_episodes (new_Coordinator ?c) = Some s"
    by (simp add: two_episodes_def new_Coordinator_def client_defs)
  from C1_single_flight [OF r, of 1 "[2, 3]"]
  show ?thesis
    by (simp add: two_episodes_def new_Coordinator_def client_defs settled_def)
qed


end
